theory Spec2Isabelle
  imports Complex_Main "HOL-Library.FSet" "HOL-Library.Char_ord" "HOL-Library.List_Lexorder"
    "HOL-Library.Product_Lexorder"
begin

section \<open>The Toil leader (src/toil/leader.py): data model\<close>

text \<open>
  The Python objects of \<^verbatim>\<open>leader.py\<close> are embedded as follows.
  \<^item> A \<^verbatim>\<open>JobWrapper\<close> is a mutable object. The heap \<open>objs\<close> maps the identity
    (address) of every wrapper in memory to its current fields; two references to
    the same object are the same address. The class itself is declared outside
    \<^verbatim>\<open>leader.py\<close>; wrappers are compared and hashed by identity (Python's default).
  \<^item> The job store holds persistent records; \<^verbatim>\<open>jobStore.load\<close> deserialises a
    record into a new object.
  \<^item> A raised exception is the outcome \<open>Err e s\<close>, carrying the state as the
    mutations made before the raise left it; a normal return is \<open>Ok v s\<close>.
  \<^item> Python's bounded recursion depth is explicit: a recursive method takes the
    number of nested calls still allowed and raises \<open>RecursionDepthExceeded\<close>
    (Python's RuntimeError "maximum recursion depth exceeded") at zero.
  \<^item> Where the code iterates over a Python set, the order of the iteration is a
    parameter (\<open>setOrder\<close>).
  \<^item> The main loop runs against an environment (workers, batch system, service
    starter thread, clock); each iteration takes what the environment did as an
    input, and a loop that has not left when the inputs end is \<open>StillRunning\<close>.
\<close>

type_synonym job_id = string
type_synonym file_id = string
type_synonym addr = nat
type_synonym resource = real

datatype exn =
    KeyError
  | IndexError
  | ValueError
  | AssertionError
  | NoSuchJobException
  | NoSuchFileException
  | Empty
  | EOFError
  | UnpicklingError
  | RuntimeError
  | RecursionDepthExceeded
  | StillRunning
  | FailedJobsException string nat

datatype ('a, 's) res = Ok 'a 's | Err exn 's

text \<open>What an outcome returned, what it raised, and the state it left.\<close>

definition returned :: "('a, 's) res \<Rightarrow> 'a option" where
  "returned r = (case r of Ok v s \<Rightarrow> Some v | Err e s \<Rightarrow> None)"

definition raised :: "('a, 's) res \<Rightarrow> exn option" where
  "raised r = (case r of Ok v s \<Rightarrow> None | Err e s \<Rightarrow> Some e)"

definition stateOf :: "('a, 's) res \<Rightarrow> 's" where
  "stateOf r = (case r of Ok v s \<Rightarrow> s | Err e s \<Rightarrow> s)"

text \<open>A successor tuple \<^verbatim>\<open>(succID, memory, cores, disk, preemptable, predecessorID|None)\<close>
  and a service tuple
  \<^verbatim>\<open>(serviceID, memory, cores, disk, startFlagID, terminateFlagID, errorFlagID)\<close>.\<close>

type_synonym successorTuple =
  "job_id \<times> resource \<times> resource \<times> resource \<times> bool \<times> job_id option"

type_synonym serviceTuple =
  "job_id \<times> resource \<times> resource \<times> resource \<times> file_id \<times> file_id \<times> file_id"

definition succID :: "successorTuple \<Rightarrow> job_id" where
  "succID t = fst t"

definition succPred :: "successorTuple \<Rightarrow> job_id option" where
  "succPred t = (case t of (s, m, c, d, p, predecessorID) \<Rightarrow> predecessorID)"

record jobWrapper =
  jobStoreID :: job_id
  command :: "string option"
  checkpoint :: "string option"
  stack :: "successorTuple list list"
  services :: "serviceTuple list list"
  predecessorNumber :: int
  predecessorsFinished :: "job_id fset"
  remainingRetryCount :: int
  memory :: resource
  cores :: resource
  disk :: resource
  preemptable :: bool
  logJobStoreFileID :: "file_id option"
  errorJobStoreID :: "file_id option"
  startJobStoreID :: "file_id option"
  terminateJobStoreID :: "file_id option"

text \<open>The job store (an interface outside \<^verbatim>\<open>leader.py\<close>): the persistent records,
  the IDs a stale listing still reports as existing although they cannot be loaded,
  the files (flags and logs), the shared files, and the name of the backend class.\<close>

record jobStore =
  js_records :: "job_id \<rightharpoonup> jobWrapper"
  js_stale :: "job_id set"
  js_files :: "file_id set"
  js_sharedFiles :: "string \<rightharpoonup> string"
  js_className :: string

record toilState =
  successorJobStoreIDToPredecessorJobs :: "job_id \<rightharpoonup> addr list"
  successorCounts :: "job_id \<rightharpoonup> int"
  serviceJobStoreIDToPredecessorJob :: "job_id \<rightharpoonup> addr"
  servicesIssued :: "job_id \<rightharpoonup> (job_id \<rightharpoonup> file_id \<times> file_id \<times> file_id)"
  updatedJobs :: "(addr \<times> int) set"
  totalFailedJobs :: "job_id fset"
  hasFailedSuccessors :: "job_id set"
  failedSuccessors :: "job_id set"
  jobsToBeScheduledWithMultiplePredecessors :: "job_id \<rightharpoonup> addr"

text \<open>The three queues of the service manager hold what a \<^verbatim>\<open>get\<close> finds at the
  moment of the call (the starter thread fills two of them concurrently).\<close>

record serviceManager =
  jobWrappersWithServicesBeingStarted :: "addr set"
  jobWrappersWithServicesToStart :: "addr list"
  jobWrappersWithServicesThatHaveStarted :: "addr list"
  serviceJobWrappersToStart :: "(job_id \<times> resource \<times> resource \<times> resource) list"
  serviceJobsIssuedToServiceManager :: int

record issuedJob =
  ij_jobStoreID :: job_id
  ij_memory :: resource
  ij_cores :: resource
  ij_disk :: resource
  ij_preemptable :: bool

text \<open>The batch system (an interface outside \<^verbatim>\<open>leader.py\<close>): the IDs it reports as
  issued, the wall time of the jobs it reports as running, the completion events
  it has queued, the ID it hands out next, and the kill requests and commands it
  has received.\<close>

record batchSystem =
  bs_issued :: "int list"
  bs_running :: "(int \<times> real) list"
  bs_updated :: "(int \<times> int \<times> real option) list"
  bs_nextID :: int
  bs_killed :: "int list"
  bs_commands :: "(int \<times> string) list"

record config =
  cfg_jobStore :: string
  cfg_defaultMemory :: resource
  cfg_defaultCores :: resource
  cfg_defaultDisk :: resource
  cfg_maxJobDuration :: real
  cfg_rescueJobsFrequency :: real
  cfg_workerEntryPoint :: string

text \<open>The Leader object together with everything it reaches: the heap of wrappers,
  the job store, the batch system, its ToilState and its service manager.\<close>

record leader =
  objs :: "addr \<Rightarrow> jobWrapper"
  nextAddr :: addr
  jobStore :: jobStore
  batchSystem :: batchSystem
  toilState :: toilState
  serviceManager :: serviceManager
  jobBatchSystemIDToIssuedJob :: "int \<rightharpoonup> issuedJob"
  jobsIssued :: int
  preemptableJobsIssued :: int
  reissueMissingJobs_missingHash :: "int \<rightharpoonup> int"
  config :: config
  hasClusterScaler :: bool
  scalerCompleted :: "(issuedJob \<times> real) list"

subsection \<open>Python primitives\<close>

definition dict_getitem :: "('k \<rightharpoonup> 'v) \<Rightarrow> 'k \<Rightarrow> exn + 'v" where
  "dict_getitem d k = (case d k of None \<Rightarrow> Inl KeyError | Some v \<Rightarrow> Inr v)"

definition dict_pop :: "('k \<rightharpoonup> 'v) \<Rightarrow> 'k \<Rightarrow> exn + ('v \<times> ('k \<rightharpoonup> 'v))" where
  "dict_pop d k = (case d k of None \<Rightarrow> Inl KeyError | Some v \<Rightarrow> Inr (v, d(k := None)))"

text \<open>Modelled from the spec: the job store class is declared outside \<^verbatim>\<open>leader.py\<close>.
  Section 6 lists \<^verbatim>\<open>exists\<close> and \<^verbatim>\<open>load\<close> as queries of the store, a load that finds no
  record raising NoSuchJobException; section 7 adds the listing that still reports a
  deleted job. A load returns a new wrapper object: a new address of the heap.\<close>

definition jobStore_exists :: "jobStore \<Rightarrow> job_id \<Rightarrow> bool" where
  "jobStore_exists js i \<longleftrightarrow> i \<in> dom (js_records js) \<or> i \<in> js_stale js"

definition jobStore_load :: "job_id \<Rightarrow> leader \<Rightarrow> (addr, leader) res" where
  "jobStore_load i l =
     (case js_records (jobStore l) i of
        None \<Rightarrow> Err NoSuchJobException l
      | Some jw \<Rightarrow>
          Ok (nextAddr l) (l\<lparr>objs := (objs l)(nextAddr l := jw), nextAddr := Suc (nextAddr l)\<rparr>))"

subsection \<open>ToilState._buildToilState\<close>

text \<open>\<^verbatim>\<open>getJob\<close> (lines 205-212): the subscript \<^verbatim>\<open>jobCache[jobId]\<close> raises KeyError on
  a missing key; the handler catches ValueError only.\<close>

definition getJob :: "(job_id \<rightharpoonup> addr) option \<Rightarrow> job_id \<Rightarrow> leader \<Rightarrow> (addr, leader) res" where
  "getJob jobCache jobId l =
     (case jobCache of
        Some cache \<Rightarrow>
          (case dict_getitem cache jobId of
             Inr a \<Rightarrow> Ok a l
           | Inl e \<Rightarrow> if e = ValueError then jobStore_load jobId l else Err e l)
      | None \<Rightarrow> jobStore_load jobId l)"

text \<open>\<^verbatim>\<open>processSuccessorWithMultiplePredecessors\<close> (lines 235-250). The recursive call
  \<^verbatim>\<open>self._buildToilState\<close> is the parameter \<open>recurse\<close>.\<close>

definition processSuccessorWithMultiplePredecessors ::
  "(addr \<Rightarrow> leader \<Rightarrow> (unit, leader) res) \<Rightarrow> addr \<Rightarrow> job_id \<Rightarrow> addr \<Rightarrow> leader \<Rightarrow> (unit, leader) res"
where
  "processSuccessorWithMultiplePredecessors recurse jobWrapper successorJobStoreID successorJobWrapper l =
     (let jid = jobStoreID (objs l jobWrapper);
          S = objs l successorJobWrapper;
          l1 = (if jid |\<notin>| predecessorsFinished S
                then l\<lparr>objs := (objs l)(successorJobWrapper :=
                         S\<lparr>predecessorsFinished := finsert jid (predecessorsFinished S)\<rparr>)\<rparr>
                else l);
          S1 = objs l1 successorJobWrapper
      in if \<not> int (fcard (predecessorsFinished S1)) \<le> predecessorNumber S1 then Err AssertionError l1
         else if int (fcard (predecessorsFinished S1)) = predecessorNumber S1 then
           (case dict_pop (jobsToBeScheduledWithMultiplePredecessors (toilState l1)) successorJobStoreID of
              Inl e \<Rightarrow> Err e l1
            | Inr (v, d) \<Rightarrow>
                recurse successorJobWrapper
                  (l1\<lparr>toilState := (toilState l1)\<lparr>jobsToBeScheduledWithMultiplePredecessors := d\<rparr>\<rparr>))
         else Ok () l1)"

text \<open>The body of the loop over \<^verbatim>\<open>jobWrapper.stack[-1]\<close> (lines 253-296).\<close>

definition buildSuccessor ::
  "(addr \<Rightarrow> leader \<Rightarrow> (unit, leader) res) \<Rightarrow> (job_id \<rightharpoonup> addr) option \<Rightarrow> addr \<Rightarrow> successorTuple
     \<Rightarrow> leader \<Rightarrow> (unit, leader) res"
where
  "buildSuccessor recurse jobCache jobWrapper successorJobStoreTuple l =
     (let successorJobStoreID = succID successorJobStoreTuple in
      case successorJobStoreIDToPredecessorJobs (toilState l) successorJobStoreID of
        None \<Rightarrow>
          (let l1 = l\<lparr>toilState := (toilState l)\<lparr>successorJobStoreIDToPredecessorJobs :=
                      (successorJobStoreIDToPredecessorJobs (toilState l))
                        (successorJobStoreID \<mapsto> [jobWrapper])\<rparr>\<rparr>
           in if succPred successorJobStoreTuple \<noteq> None then
                (case getJob jobCache successorJobStoreID l1 of
                   Err e l2 \<Rightarrow> Err e l2
                 | Ok successorJobWrapper l2 \<Rightarrow>
                     if successorJobStoreID \<in> dom (jobsToBeScheduledWithMultiplePredecessors (toilState l2))
                     then Err AssertionError l2
                     else processSuccessorWithMultiplePredecessors recurse jobWrapper
                            successorJobStoreID successorJobWrapper
                            (l2\<lparr>toilState := (toilState l2)\<lparr>jobsToBeScheduledWithMultiplePredecessors :=
                                  (jobsToBeScheduledWithMultiplePredecessors (toilState l2))
                                    (successorJobStoreID \<mapsto> successorJobWrapper)\<rparr>\<rparr>))
              else
                (case getJob jobCache successorJobStoreID l1 of
                   Err e l2 \<Rightarrow> Err e l2
                 | Ok successorJobWrapper l2 \<Rightarrow> recurse successorJobWrapper l2))
      | Some preds \<Rightarrow>
          if jobWrapper \<in> set preds then Err AssertionError l
          else
            (let l1 = l\<lparr>toilState := (toilState l)\<lparr>successorJobStoreIDToPredecessorJobs :=
                        (successorJobStoreIDToPredecessorJobs (toilState l))
                          (successorJobStoreID \<mapsto> preds @ [jobWrapper])\<rparr>\<rparr>
             in case jobsToBeScheduledWithMultiplePredecessors (toilState l1) successorJobStoreID of
                  Some successorJobWrapper \<Rightarrow>
                    processSuccessorWithMultiplePredecessors recurse jobWrapper
                      successorJobStoreID successorJobWrapper l1
                | None \<Rightarrow> Ok () l1))"

fun buildSuccessors ::
  "(addr \<Rightarrow> leader \<Rightarrow> (unit, leader) res) \<Rightarrow> (job_id \<rightharpoonup> addr) option \<Rightarrow> addr \<Rightarrow> successorTuple list
     \<Rightarrow> leader \<Rightarrow> (unit, leader) res"
where
  "buildSuccessors recurse jobCache jobWrapper [] l = Ok () l"
| "buildSuccessors recurse jobCache jobWrapper (t # ts) l =
     (case buildSuccessor recurse jobCache jobWrapper t l of
        Err e l1 \<Rightarrow> Err e l1
      | Ok u l1 \<Rightarrow> buildSuccessors recurse jobCache jobWrapper ts l1)"

text \<open>The test of lines 216-219: the wrapper has a command, is a checkpoint, has
  services or has an empty stack.\<close>

definition readyToProcess :: "jobWrapper \<Rightarrow> bool" where
  "readyToProcess J \<longleftrightarrow>
     command J \<noteq> None \<or> checkpoint J \<noteq> None \<or> length (services J) > 0 \<or> length (stack J) = 0"

primrec buildToilState ::
  "nat \<Rightarrow> (job_id \<rightharpoonup> addr) option \<Rightarrow> addr \<Rightarrow> leader \<Rightarrow> (unit, leader) res"
where
  "buildToilState 0 = (\<lambda>jobCache jobWrapper l. Err RecursionDepthExceeded l)"
| "buildToilState (Suc depth) = (\<lambda>jobCache jobWrapper l.
     (let J = objs l jobWrapper in
      if readyToProcess J then
        (let l1 = l\<lparr>toilState := (toilState l)\<lparr>updatedJobs :=
                    insert (jobWrapper, 0) (updatedJobs (toilState l))\<rparr>\<rparr>
         in if checkpoint J \<noteq> None
            then Ok () (l1\<lparr>objs := (objs l1)(jobWrapper := (objs l1 jobWrapper)\<lparr>command := checkpoint J\<rparr>)\<rparr>)
            else Ok () l1)
      else
        (let l1 = l\<lparr>toilState := (toilState l)\<lparr>successorCounts :=
                    (successorCounts (toilState l))(jobStoreID J \<mapsto> int (length (last (stack J))))\<rparr>\<rparr>
         in buildSuccessors (buildToilState depth jobCache) jobCache jobWrapper (last (stack J)) l1)))"

text \<open>\<^verbatim>\<open>ToilState.__init__\<close> (lines 146-193): the fields before the traversal.\<close>

definition ToilState_fields :: toilState where
  "ToilState_fields =
     \<lparr>successorJobStoreIDToPredecessorJobs = Map.empty,
      successorCounts = Map.empty,
      serviceJobStoreIDToPredecessorJob = Map.empty,
      servicesIssued = Map.empty,
      updatedJobs = {},
      totalFailedJobs = {||},
      hasFailedSuccessors = {},
      failedSuccessors = {},
      jobsToBeScheduledWithMultiplePredecessors = Map.empty\<rparr>"

definition ToilState_init ::
  "nat \<Rightarrow> addr \<Rightarrow> (job_id \<rightharpoonup> addr) option \<Rightarrow> leader \<Rightarrow> (unit, leader) res" where
  "ToilState_init depth rootJob jobCache l =
     buildToilState depth jobCache rootJob (l\<lparr>toilState := ToilState_fields\<rparr>)"

subsection \<open>ServiceManager\<close>

text \<open>\<^verbatim>\<open>Queue.get(timeout=maxWait)\<close> of Python 2: a negative timeout raises
  ValueError, an empty queue raises Empty once the wait is over.\<close>

definition Queue_get :: "'a list \<Rightarrow> real \<Rightarrow> exn + ('a \<times> 'a list)" where
  "Queue_get q maxWait =
     (if maxWait < 0 then Inl ValueError
      else case q of [] \<Rightarrow> Inl Empty | x # xs \<Rightarrow> Inr (x, xs))"

definition ServiceManager_fields :: serviceManager where
  "ServiceManager_fields =
     \<lparr>jobWrappersWithServicesBeingStarted = {},
      jobWrappersWithServicesToStart = [],
      jobWrappersWithServicesThatHaveStarted = [],
      serviceJobWrappersToStart = [],
      serviceJobsIssuedToServiceManager = 0\<rparr>"

definition scheduleServices :: "addr \<Rightarrow> leader \<Rightarrow> leader" where
  "scheduleServices jobWrapper l =
     (let sm = serviceManager l in
      l\<lparr>serviceManager := sm
        \<lparr>jobWrappersWithServicesBeingStarted :=
           insert jobWrapper (jobWrappersWithServicesBeingStarted sm),
         serviceJobsIssuedToServiceManager :=
           serviceJobsIssuedToServiceManager sm
             + int (sum_list (map length (services (objs l jobWrapper)))) + 1,
         jobWrappersWithServicesToStart := jobWrappersWithServicesToStart sm @ [jobWrapper]\<rparr>\<rparr>)"

definition getJobWrapperWhoseServicesAreRunning :: "real \<Rightarrow> leader \<Rightarrow> (addr option, leader) res" where
  "getJobWrapperWhoseServicesAreRunning maxWait l =
     (let sm = serviceManager l in
      case Queue_get (jobWrappersWithServicesThatHaveStarted sm) maxWait of
        Inl e \<Rightarrow> if e = Empty then Ok None l else Err e l
      | Inr (jobWrapper, q) \<Rightarrow>
          (let sm1 = sm\<lparr>jobWrappersWithServicesThatHaveStarted := q\<rparr> in
           if jobWrapper \<notin> jobWrappersWithServicesBeingStarted sm1
           then Err KeyError (l\<lparr>serviceManager := sm1\<rparr>)
           else
             (let sm2 = sm1\<lparr>jobWrappersWithServicesBeingStarted :=
                          jobWrappersWithServicesBeingStarted sm1 - {jobWrapper}\<rparr>
              in if \<not> serviceJobsIssuedToServiceManager sm2 \<ge> 0
                 then Err AssertionError (l\<lparr>serviceManager := sm2\<rparr>)
                 else Ok (Some jobWrapper)
                        (l\<lparr>serviceManager := sm2\<lparr>serviceJobsIssuedToServiceManager :=
                              serviceJobsIssuedToServiceManager sm2 - 1\<rparr>\<rparr>))))"

definition getServiceJobsToStart ::
  "real \<Rightarrow> leader \<Rightarrow> ((job_id \<times> resource \<times> resource \<times> resource) option, leader) res" where
  "getServiceJobsToStart maxWait l =
     (let sm = serviceManager l in
      case Queue_get (serviceJobWrappersToStart sm) maxWait of
        Inl e \<Rightarrow> if e = Empty then Ok None l else Err e l
      | Inr (jobTuple, q) \<Rightarrow>
          (let sm1 = sm\<lparr>serviceJobWrappersToStart := q\<rparr> in
           if \<not> serviceJobsIssuedToServiceManager sm1 \<ge> 0
           then Err AssertionError (l\<lparr>serviceManager := sm1\<rparr>)
           else Ok (Some jobTuple)
                  (l\<lparr>serviceManager := sm1\<lparr>serviceJobsIssuedToServiceManager :=
                        serviceJobsIssuedToServiceManager sm1 - 1\<rparr>\<rparr>)))"

text \<open>\<^verbatim>\<open>killServices\<close> (lines 392-400) deletes the terminate flag of every service of
  the map, and the error flag as well when \<open>error\<close> is set.\<close>

definition killServices ::
  "(job_id \<rightharpoonup> file_id \<times> file_id \<times> file_id) \<Rightarrow> bool \<Rightarrow> leader \<Rightarrow> leader" where
  "killServices svcs error l =
     l\<lparr>jobStore := (jobStore l)\<lparr>js_files := js_files (jobStore l) -
          {f. \<exists>sid startF terminateF errorF. svcs sid = Some (startF, terminateF, errorF)
                \<and> (f = terminateF \<or> (error \<and> f = errorF))}\<rparr>\<rparr>"

subsection \<open>Leader: issuing and removing jobs\<close>

text \<open>\<^verbatim>\<open>batchSystem.issueBatchJob\<close> hands out the next ID and lists the job as issued.
  \<open>cfg_workerEntryPoint\<close> is the value of \<^verbatim>\<open>resolveEntryPoint('_toil_worker')\<close>, a
  function defined outside \<^verbatim>\<open>leader.py\<close>.\<close>

definition issueJob ::
  "job_id \<Rightarrow> resource \<Rightarrow> resource \<Rightarrow> resource \<Rightarrow> bool \<Rightarrow> leader \<Rightarrow> leader" where
  "issueJob jid mem cor dsk preempt l =
     (let jobCommand = cfg_workerEntryPoint (config l) @ '' '' @ cfg_jobStore (config l) @ '' '' @ jid;
          bs = batchSystem l;
          jobBatchSystemID = bs_nextID bs
      in l\<lparr>jobsIssued := jobsIssued l + 1,
           preemptableJobsIssued := (if preempt then preemptableJobsIssued l + 1 else preemptableJobsIssued l),
           batchSystem := bs\<lparr>bs_nextID := jobBatchSystemID + 1,
                              bs_issued := bs_issued bs @ [jobBatchSystemID],
                              bs_commands := bs_commands bs @ [(jobBatchSystemID, jobCommand)]\<rparr>,
           jobBatchSystemIDToIssuedJob := (jobBatchSystemIDToIssuedJob l)(jobBatchSystemID \<mapsto>
              \<lparr>ij_jobStoreID = jid, ij_memory = mem, ij_cores = cor, ij_disk = dsk,
               ij_preemptable = preempt\<rparr>)\<rparr>)"

fun issueJobs ::
  "(job_id \<times> resource \<times> resource \<times> resource \<times> bool) list \<Rightarrow> leader \<Rightarrow> leader" where
  "issueJobs [] l = l"
| "issueJobs ((jid, mem, cor, dsk, preempt) # jobs) l =
     issueJobs jobs (issueJob jid mem cor dsk preempt l)"

definition getNumberOfJobsIssued :: "leader \<Rightarrow> (int, leader) res" where
  "getNumberOfJobsIssued l =
     (if jobsIssued l \<ge> 0 \<and> preemptableJobsIssued l \<ge> 0 then Ok (jobsIssued l) l
      else Err AssertionError l)"

definition hasJob :: "leader \<Rightarrow> int \<Rightarrow> bool" where
  "hasJob l jobBatchSystemID \<longleftrightarrow> jobBatchSystemID \<in> dom (jobBatchSystemIDToIssuedJob l)"

definition removeJobID :: "int \<Rightarrow> leader \<Rightarrow> (job_id, leader) res" where
  "removeJobID jobBatchSystemID l =
     (case jobBatchSystemIDToIssuedJob l jobBatchSystemID of
        None \<Rightarrow> Err AssertionError l
      | Some ij \<Rightarrow>
          (let l1 = l\<lparr>jobsIssued := jobsIssued l - 1\<rparr> in
           if ij_preemptable ij \<and> \<not> preemptableJobsIssued l1 > 0 then Err AssertionError l1
           else
             (let l2 = (if ij_preemptable ij
                        then l1\<lparr>preemptableJobsIssued := preemptableJobsIssued l1 - 1\<rparr> else l1)
              in Ok (ij_jobStoreID ij)
                   (l2\<lparr>jobBatchSystemIDToIssuedJob :=
                         (jobBatchSystemIDToIssuedJob l2)(jobBatchSystemID := None)\<rparr>))))"

subsection \<open>Leader._updatePredecessorStatus\<close>

text \<open>The body of the loop of lines 1228-1248 for one predecessor. The assertion of
  line 1244 compares a wrapper with the (wrapper, status) pairs of \<open>updatedJobs\<close>
  and never fails.\<close>

definition updatePredecessor :: "addr \<Rightarrow> leader \<Rightarrow> (unit, leader) res" where
  "updatePredecessor predecessorJob l =
     (let pid = jobStoreID (objs l predecessorJob) in
      case successorCounts (toilState l) pid of
        None \<Rightarrow> Err KeyError l
      | Some n \<Rightarrow>
          (let l1 = l\<lparr>toilState := (toilState l)\<lparr>successorCounts :=
                      (successorCounts (toilState l))(pid \<mapsto> n - 1)\<rparr>\<rparr>
           in if n - 1 = 0 then
                (let l2 = l1\<lparr>toilState := (toilState l1)\<lparr>successorCounts :=
                            (successorCounts (toilState l1))(pid := None)\<rparr>\<rparr>
                 in if stack (objs l2 predecessorJob) = [] then Err IndexError l2
                    else Ok ()
                      (l2\<lparr>objs := (objs l2)(predecessorJob :=
                             (objs l2 predecessorJob)\<lparr>stack := butlast (stack (objs l2 predecessorJob))\<rparr>),
                          toilState := (toilState l2)\<lparr>updatedJobs :=
                             insert (predecessorJob, 0) (updatedJobs (toilState l2))\<rparr>\<rparr>))
              else Ok () l1))"

fun updatePredecessors :: "addr list \<Rightarrow> leader \<Rightarrow> (unit, leader) res" where
  "updatePredecessors [] l = Ok () l"
| "updatePredecessors (p # ps) l =
     (case updatePredecessor p l of
        Err e l1 \<Rightarrow> Err e l1
      | Ok u l1 \<Rightarrow> updatePredecessors ps l1)"

definition updatePredecessorStatus :: "job_id \<Rightarrow> leader \<Rightarrow> (unit, leader) res" where
  "updatePredecessorStatus jid l =
     (let ts = toilState l in
      case serviceJobStoreIDToPredecessorJob ts jid of
        Some predecessorJob \<Rightarrow>
          (let pid = jobStoreID (objs l predecessorJob);
               l1 = l\<lparr>toilState := ts\<lparr>serviceJobStoreIDToPredecessorJob :=
                      (serviceJobStoreIDToPredecessorJob ts)(jid := None)\<rparr>\<rparr>
           in case servicesIssued (toilState l1) pid of
                None \<Rightarrow> Err KeyError l1
              | Some svcs \<Rightarrow>
                  if svcs jid = None then Err KeyError l1
                  else
                    (let svcs1 = svcs(jid := None);
                         l2 = l1\<lparr>toilState := (toilState l1)\<lparr>servicesIssued :=
                                (servicesIssued (toilState l1))(pid \<mapsto> svcs1)\<rparr>\<rparr>
                     in if svcs1 = Map.empty then
                          Ok () (l2\<lparr>toilState := (toilState l2)
                                   \<lparr>servicesIssued := (servicesIssued (toilState l2))(pid := None),
                                    updatedJobs := insert (predecessorJob, 0) (updatedJobs (toilState l2))\<rparr>\<rparr>)
                        else Ok () l2))
      | None \<Rightarrow>
          (case successorJobStoreIDToPredecessorJobs ts jid of
             None \<Rightarrow>
               if updatedJobs ts = {} \<and> successorJobStoreIDToPredecessorJobs ts = Map.empty
                  \<and> successorCounts ts = Map.empty
               then Ok () l else Err AssertionError l
           | Some preds \<Rightarrow>
               updatePredecessors preds
                 (l\<lparr>toilState := ts\<lparr>successorJobStoreIDToPredecessorJobs :=
                       (successorJobStoreIDToPredecessorJobs ts)(jid := None)\<rparr>\<rparr>)))"

subsection \<open>Leader.processFinishedJob, killJobs and the rescue of stuck jobs\<close>

text \<open>Modelled from the spec: \<^verbatim>\<open>JobWrapper.setupJobAfterFailure\<close> is a method of a class
  declared outside \<^verbatim>\<open>leader.py\<close>; section 4.2 says it decrements
  \<open>remainingRetryCount\<close>, which section 3 keeps non-negative.\<close>

definition setupJobAfterFailure :: "jobWrapper \<Rightarrow> jobWrapper" where
  "setupJobAfterFailure J = J\<lparr>remainingRetryCount := max 0 (remainingRetryCount J - 1)\<rparr>"

definition jobStore_store :: "jobWrapper \<Rightarrow> jobStore \<Rightarrow> jobStore" where
  "jobStore_store J js = js\<lparr>js_records := (js_records js)(jobStoreID J \<mapsto> J)\<rparr>"

definition processRemovedJob :: "job_id \<Rightarrow> leader \<Rightarrow> (unit, leader) res" where
  "processRemovedJob jid l = updatePredecessorStatus jid l"

text \<open>Lines 1027-1083. Writing the job's log file to the logger (lines 1058-1066)
  changes no state and is left out.\<close>

definition processFinishedJob :: "int \<Rightarrow> int \<Rightarrow> real option \<Rightarrow> leader \<Rightarrow> (unit, leader) res" where
  "processFinishedJob jobBatchSystemID resultStatus wallTime l =
     (case (if wallTime \<noteq> None \<and> hasClusterScaler l then
              (case jobBatchSystemIDToIssuedJob l jobBatchSystemID of
                 None \<Rightarrow> Err KeyError l
               | Some ij \<Rightarrow> Ok () (l\<lparr>scalerCompleted := scalerCompleted l @ [(ij, the wallTime)]\<rparr>))
            else Ok () l) of
        Err e l0 \<Rightarrow> Err e l0
      | Ok u l0 \<Rightarrow>
     (case removeJobID jobBatchSystemID l0 of
        Err e l1 \<Rightarrow> Err e l1
      | Ok jid l1 \<Rightarrow>
          if jobStore_exists (jobStore l1) jid then
            (case jobStore_load jid l1 of
               Err e l2 \<Rightarrow>
                 if e = NoSuchJobException then
                   (if js_className (jobStore l2) = ''AWSJobStore'' then processRemovedJob jid l2
                    else Err e l2)
                 else Err e l2
             | Ok jobWrapper l2 \<Rightarrow>
                 (let l3 =
                    (if resultStatus \<noteq> 0 then
                       (let J = setupJobAfterFailure (objs l2 jobWrapper) in
                        l2\<lparr>objs := (objs l2)(jobWrapper := J),
                           jobStore := jobStore_store J (jobStore l2)\<rparr>)
                     else if jid \<in> hasFailedSuccessors (toilState l2) then
                       l2\<lparr>toilState := (toilState l2)\<lparr>hasFailedSuccessors :=
                             hasFailedSuccessors (toilState l2) - {jid}\<rparr>\<rparr>
                     else l2)
                  in Ok () (l3\<lparr>toilState := (toilState l3)\<lparr>updatedJobs :=
                              insert (jobWrapper, resultStatus) (updatedJobs (toilState l3))\<rparr>\<rparr>)))
          else processRemovedJob jid l1))"

fun processKilledJobs :: "int list \<Rightarrow> leader \<Rightarrow> (unit, leader) res" where
  "processKilledJobs [] l = Ok () l"
| "processKilledJobs (b # bs) l =
     (case processFinishedJob b 1 None l of
        Err e l1 \<Rightarrow> Err e l1
      | Ok u l1 \<Rightarrow> processKilledJobs bs l1)"

text \<open>\<^verbatim>\<open>batchSystem.killBatchJobs\<close> records the request; the killed jobs are no longer
  reported as issued or running.\<close>

definition killBatchJobs :: "int list \<Rightarrow> batchSystem \<Rightarrow> batchSystem" where
  "killBatchJobs jobsToKill bs =
     bs\<lparr>bs_killed := bs_killed bs @ jobsToKill,
        bs_issued := filter (\<lambda>b. b \<notin> set jobsToKill) (bs_issued bs),
        bs_running := filter (\<lambda>(b, t). b \<notin> set jobsToKill) (bs_running bs)\<rparr>"

definition killJobs :: "int list \<Rightarrow> leader \<Rightarrow> (unit, leader) res" where
  "killJobs jobsToKill l =
     (if length jobsToKill > 0
      then processKilledJobs jobsToKill (l\<lparr>batchSystem := killBatchJobs jobsToKill (batchSystem l)\<rparr>)
      else Ok () l)"

fun overLongJobs :: "leader \<Rightarrow> real \<Rightarrow> (int \<times> real) list \<Rightarrow> int list \<Rightarrow> exn + int list" where
  "overLongJobs l maxJobDuration [] jobsToKill = Inr jobsToKill"
| "overLongJobs l maxJobDuration ((b, t) # rs) jobsToKill =
     (if t > maxJobDuration then
        (if hasJob l b then overLongJobs l maxJobDuration rs (jobsToKill @ [b]) else Inl KeyError)
      else overLongJobs l maxJobDuration rs jobsToKill)"

definition reissueOverLongJobs :: "leader \<Rightarrow> (unit, leader) res" where
  "reissueOverLongJobs l =
     (let maxJobDuration = cfg_maxJobDuration (config l) in
      if maxJobDuration < 10000000 then
        (case overLongJobs l maxJobDuration (bs_running (batchSystem l)) [] of
           Inl e \<Rightarrow> Err e l
         | Inr jobsToKill \<Rightarrow> killJobs jobsToKill l)
      else Ok () l)"

text \<open>The second loop of \<^verbatim>\<open>reissueMissingJobs\<close> (lines 1011-1022), over the tracked
  jobs the batch system does not list, in the order Python iterates the set.\<close>

fun countMissingJobs ::
  "int \<Rightarrow> int list \<Rightarrow> (int \<rightharpoonup> int) \<times> int list \<Rightarrow> (int \<rightharpoonup> int) \<times> int list" where
  "countMissingJobs killAfterNTimesMissing [] acc = acc"
| "countMissingJobs killAfterNTimesMissing (b # bs) (missingHash, jobsToKill) =
     (let timesMissing = (case missingHash b of Some n \<Rightarrow> n + 1 | None \<Rightarrow> 1) in
      if timesMissing = killAfterNTimesMissing
      then countMissingJobs killAfterNTimesMissing bs (missingHash(b := None), jobsToKill @ [b])
      else countMissingJobs killAfterNTimesMissing bs (missingHash(b \<mapsto> timesMissing), jobsToKill))"

text \<open>Lines 994-1025. \<open>order\<close> is the order in which Python iterates a set of batch
  system IDs.\<close>

definition reissueMissingJobs ::
  "(int set \<Rightarrow> int list) \<Rightarrow> int \<Rightarrow> leader \<Rightarrow> (bool, leader) res" where
  "reissueMissingJobs order killAfterNTimesMissing l =
     (let runningJobs = set (bs_issued (batchSystem l));
          jobBatchSystemIDsSet = dom (jobBatchSystemIDToIssuedJob l);
          l1 = l\<lparr>reissueMissingJobs_missingHash :=
                   reissueMissingJobs_missingHash l |` jobBatchSystemIDsSet\<rparr>
      in if \<not> runningJobs \<subseteq> jobBatchSystemIDsSet then Err AssertionError l1
         else
           (case countMissingJobs killAfterNTimesMissing
                   (order (jobBatchSystemIDsSet - runningJobs))
                   (reissueMissingJobs_missingHash l1, []) of
              (missingHash, jobsToKill) \<Rightarrow>
                (case killJobs jobsToKill (l1\<lparr>reissueMissingJobs_missingHash := missingHash\<rparr>) of
                   Err e l2 \<Rightarrow> Err e l2
                 | Ok u l2 \<Rightarrow> Ok (reissueMissingJobs_missingHash l2 = Map.empty) l2)))"

subsection \<open>Leader.getSuccessors\<close>

text \<open>The body of the inner loop of \<^verbatim>\<open>successorRecursion\<close> (lines 1100-1115). The state
  is the pair of the local set \<open>successors\<close> and the caller's set
  \<open>alreadySeenSuccessors\<close>, which the method updates in place. The wrappers loaded
  here are read once and dropped, so they are not given an address.\<close>

definition jobStore_read :: "jobStore \<Rightarrow> job_id \<Rightarrow> exn + jobWrapper" where
  "jobStore_read js i = (case js_records js i of None \<Rightarrow> Inl NoSuchJobException | Some jw \<Rightarrow> Inr jw)"

definition visitSuccessor ::
  "(jobWrapper \<Rightarrow> job_id set \<times> job_id set \<Rightarrow> (unit, job_id set \<times> job_id set) res) \<Rightarrow> jobStore
     \<Rightarrow> successorTuple \<Rightarrow> job_id set \<times> job_id set \<Rightarrow> (unit, job_id set \<times> job_id set) res"
where
  "visitSuccessor recurse js successorJobStoreTuple st =
     (case st of (successors, alreadySeenSuccessors) \<Rightarrow>
        (let successorJobStoreID = succID successorJobStoreTuple in
         if successorJobStoreID \<notin> alreadySeenSuccessors then
           (let st1 = (insert successorJobStoreID successors,
                       insert successorJobStoreID alreadySeenSuccessors)
            in if jobStore_exists js successorJobStoreID then
                 (case jobStore_read js successorJobStoreID of
                    Inl e \<Rightarrow> Err e st1
                  | Inr jw \<Rightarrow> recurse jw st1)
               else Ok () st1)
         else Ok () st))"

fun visitSuccessorList ::
  "(jobWrapper \<Rightarrow> job_id set \<times> job_id set \<Rightarrow> (unit, job_id set \<times> job_id set) res) \<Rightarrow> jobStore
     \<Rightarrow> successorTuple list \<Rightarrow> job_id set \<times> job_id set \<Rightarrow> (unit, job_id set \<times> job_id set) res"
where
  "visitSuccessorList recurse js [] st = Ok () st"
| "visitSuccessorList recurse js (t # ts) st =
     (case visitSuccessor recurse js t st of
        Err e st1 \<Rightarrow> Err e st1
      | Ok u st1 \<Rightarrow> visitSuccessorList recurse js ts st1)"

fun visitStack ::
  "(jobWrapper \<Rightarrow> job_id set \<times> job_id set \<Rightarrow> (unit, job_id set \<times> job_id set) res) \<Rightarrow> jobStore
     \<Rightarrow> successorTuple list list \<Rightarrow> job_id set \<times> job_id set \<Rightarrow> (unit, job_id set \<times> job_id set) res"
where
  "visitStack recurse js [] st = Ok () st"
| "visitStack recurse js (successorList # rest) st =
     (case visitSuccessorList recurse js successorList st of
        Err e st1 \<Rightarrow> Err e st1
      | Ok u st1 \<Rightarrow> visitStack recurse js rest st1)"

primrec successorRecursion ::
  "nat \<Rightarrow> jobStore \<Rightarrow> jobWrapper \<Rightarrow> job_id set \<times> job_id set \<Rightarrow> (unit, job_id set \<times> job_id set) res"
where
  "successorRecursion 0 = (\<lambda>js jobWrapper st. Err RecursionDepthExceeded st)"
| "successorRecursion (Suc depth) = (\<lambda>js jobWrapper st.
     visitStack (successorRecursion depth js) js (stack jobWrapper) st)"

text \<open>\<^verbatim>\<open>getSuccessors\<close> (lines 1085-1119) returns the set \<open>successors\<close>; the state it
  leaves is \<open>alreadySeenSuccessors\<close>.\<close>

definition getSuccessors ::
  "nat \<Rightarrow> jobWrapper \<Rightarrow> job_id set \<Rightarrow> jobStore \<Rightarrow> (job_id set, job_id set) res" where
  "getSuccessors depth jobWrapper alreadySeenSuccessors js =
     (case successorRecursion depth js jobWrapper ({}, alreadySeenSuccessors) of
        Ok u (successors, seen) \<Rightarrow> Ok successors seen
      | Err e (successors, seen) \<Rightarrow> Err e seen)"

subsection \<open>Leader.processTotallyFailedJob\<close>

text \<open>The order in which Python iterates the sets the Leader loops over.\<close>

record setOrder =
  order_ids :: "job_id set \<Rightarrow> job_id list"
  order_updated :: "(addr \<times> int) set \<Rightarrow> (addr \<times> int) list"
  order_batch :: "int set \<Rightarrow> int list"

definition jobStore_deleteFile :: "file_id option \<Rightarrow> leader \<Rightarrow> leader" where
  "jobStore_deleteFile f l =
     (case f of None \<Rightarrow> l
      | Some fid \<Rightarrow> l\<lparr>jobStore := (jobStore l)\<lparr>js_files := js_files (jobStore l) - {fid}\<rparr>\<rparr>)"

definition jobStore_fileExists :: "jobStore \<Rightarrow> file_id option \<Rightarrow> bool" where
  "jobStore_fileExists js f = (case f of None \<Rightarrow> False | Some fid \<Rightarrow> fid \<in> js_files js)"

text \<open>The body of the loop of lines 1172-1187 for one predecessor of a newly failed
  successor.\<close>

definition failPredecessor :: "addr \<Rightarrow> leader \<Rightarrow> (unit, leader) res" where
  "failPredecessor predecessorJob l =
     (let pid = jobStoreID (objs l predecessorJob) in
      case successorCounts (toilState l) pid of
        None \<Rightarrow> Err KeyError l
      | Some n \<Rightarrow>
          (let l1 = l\<lparr>toilState := (toilState l)
                      \<lparr>successorCounts := (successorCounts (toilState l))(pid \<mapsto> n - 1),
                       hasFailedSuccessors := insert pid (hasFailedSuccessors (toilState l))\<rparr>\<rparr>
           in if \<not> n - 1 \<ge> 0 then Err AssertionError l1
              else if n - 1 = 0 then
                Ok () (l1\<lparr>toilState := (toilState l1)
                          \<lparr>updatedJobs := insert (predecessorJob, 0) (updatedJobs (toilState l1)),
                           successorCounts := (successorCounts (toilState l1))(pid := None)\<rparr>\<rparr>)
              else Ok () l1))"

fun failPredecessors :: "addr list \<Rightarrow> leader \<Rightarrow> (unit, leader) res" where
  "failPredecessors [] l = Ok () l"
| "failPredecessors (p # ps) l =
     (case failPredecessor p l of
        Err e l1 \<Rightarrow> Err e l1
      | Ok u l1 \<Rightarrow> failPredecessors ps l1)"

fun failSuccessors :: "job_id list \<Rightarrow> leader \<Rightarrow> (unit, leader) res" where
  "failSuccessors [] l = Ok () l"
| "failSuccessors (successorJobStoreID # rest) l =
     (case successorJobStoreIDToPredecessorJobs (toilState l) successorJobStoreID of
        None \<Rightarrow> failSuccessors rest l
      | Some preds \<Rightarrow>
          (case failPredecessors preds
                  (l\<lparr>toilState := (toilState l)\<lparr>successorJobStoreIDToPredecessorJobs :=
                        (successorJobStoreIDToPredecessorJobs (toilState l))
                          (successorJobStoreID := None)\<rparr>\<rparr>) of
             Err e l1 \<Rightarrow> Err e l1
           | Ok u l1 \<Rightarrow> failSuccessors rest l1))"

text \<open>Lines 1121-1199.\<close>

definition processTotallyFailedJob :: "setOrder \<Rightarrow> nat \<Rightarrow> addr \<Rightarrow> leader \<Rightarrow> (unit, leader) res" where
  "processTotallyFailedJob py depth jobWrapper l =
     (let jid = jobStoreID (objs l jobWrapper);
          l1 = l\<lparr>toilState := (toilState l)\<lparr>totalFailedJobs :=
                   finsert jid (totalFailedJobs (toilState l))\<rparr>\<rparr>
      in case serviceJobStoreIDToPredecessorJob (toilState l1) jid of
           Some predecessorJobWrapper \<Rightarrow>
             (case updatePredecessorStatus jid l1 of
                Err e l2 \<Rightarrow> Err e l2
              | Ok u l2 \<Rightarrow>
                  (let l3 = jobStore_deleteFile (startJobStoreID (objs l2 jobWrapper)) l2;
                       pid = jobStoreID (objs l3 predecessorJobWrapper);
                       l4 = (case servicesIssued (toilState l3) pid of
                               Some svcs \<Rightarrow> killServices svcs True l3
                             | None \<Rightarrow> l3)
                   in Ok () (l4\<lparr>toilState := (toilState l4)\<lparr>hasFailedSuccessors :=
                                 insert pid (hasFailedSuccessors (toilState l4))\<rparr>\<rparr>)))
         | None \<Rightarrow>
             if jid \<in> dom (servicesIssued (toilState l1)) then Err AssertionError l1
             else
               (case getSuccessors depth (objs l1 jobWrapper) (failedSuccessors (toilState l1))
                       (jobStore l1) of
                  Err e seen \<Rightarrow> Err e (l1\<lparr>toilState := (toilState l1)\<lparr>failedSuccessors := seen\<rparr>\<rparr>)
                | Ok unseenSuccessors seen \<Rightarrow>
                    (case failSuccessors (order_ids py unseenSuccessors)
                            (l1\<lparr>toilState := (toilState l1)\<lparr>failedSuccessors := seen\<rparr>\<rparr>) of
                       Err e l3 \<Rightarrow> Err e l3
                     | Ok u l3 \<Rightarrow>
                         (case successorJobStoreIDToPredecessorJobs (toilState l3) jid of
                            None \<Rightarrow> Ok () l3
                          | Some preds \<Rightarrow>
                              updatePredecessorStatus jid
                                (l3\<lparr>toilState := (toilState l3)\<lparr>hasFailedSuccessors :=
                                      hasFailedSuccessors (toilState l3)
                                        \<union> (\<lambda>p. jobStoreID (objs l3 p)) ` set preds\<rparr>\<rparr>)))))"

subsection \<open>Leader.innerLoop: one updated job\<close>

text \<open>Lines 697-712: the services of a job are registered, then handed to the service
  manager.\<close>

definition registerService :: "addr \<Rightarrow> serviceTuple \<Rightarrow> leader \<Rightarrow> (unit, leader) res" where
  "registerService jobWrapper serviceTuple l =
     (case serviceTuple of (serviceID, mem, cor, dsk, startF, terminateF, errorF) \<Rightarrow>
        (let jid = jobStoreID (objs l jobWrapper) in
         if serviceID \<in> dom (serviceJobStoreIDToPredecessorJob (toilState l)) then Err AssertionError l
         else
           (let l1 = l\<lparr>toilState := (toilState l)\<lparr>serviceJobStoreIDToPredecessorJob :=
                       (serviceJobStoreIDToPredecessorJob (toilState l))(serviceID \<mapsto> jobWrapper)\<rparr>\<rparr>
            in case servicesIssued (toilState l1) jid of
                 None \<Rightarrow> Err KeyError l1
               | Some svcs \<Rightarrow>
                   Ok () (l1\<lparr>toilState := (toilState l1)\<lparr>servicesIssued :=
                            (servicesIssued (toilState l1))
                              (jid \<mapsto> svcs(serviceID \<mapsto> (startF, terminateF, errorF)))\<rparr>\<rparr>))))"

fun registerServices :: "addr \<Rightarrow> serviceTuple list \<Rightarrow> leader \<Rightarrow> (unit, leader) res" where
  "registerServices jobWrapper [] l = Ok () l"
| "registerServices jobWrapper (t # ts) l =
     (case registerService jobWrapper t l of
        Err e l1 \<Rightarrow> Err e l1
      | Ok u l1 \<Rightarrow> registerServices jobWrapper ts l1)"

definition startServices :: "addr \<Rightarrow> leader \<Rightarrow> (unit, leader) res" where
  "startServices jobWrapper l =
     (let jid = jobStoreID (objs l jobWrapper) in
      if jid \<in> dom (servicesIssued (toilState l)) then Err AssertionError l
      else
        (case registerServices jobWrapper (concat (services (objs l jobWrapper)))
                (l\<lparr>toilState := (toilState l)\<lparr>servicesIssued :=
                      (servicesIssued (toilState l))(jid \<mapsto> Map.empty)\<rparr>\<rparr>) of
           Err e l1 \<Rightarrow> Err e l1
         | Ok u l1 \<Rightarrow> Ok () (scheduleServices jobWrapper l1)))"

text \<open>Lines 748-768: the successor is in the set of successors of failed jobs. The
  value returned says whether the loop goes on to the next successor
  (\<^verbatim>\<open>continue\<close>).\<close>

definition failedSuccessorOf :: "addr \<Rightarrow> job_id \<Rightarrow> leader \<Rightarrow> (bool, leader) res" where
  "failedSuccessorOf jobWrapper successorJobStoreID l =
     (let jid = jobStoreID (objs l jobWrapper);
          l1 = l\<lparr>toilState := (toilState l)\<lparr>hasFailedSuccessors :=
                   insert jid (hasFailedSuccessors (toilState l))\<rparr>\<rparr>
      in case successorCounts (toilState l1) jid of
           None \<Rightarrow> Err KeyError l1
         | Some n \<Rightarrow>
             (let l2 = l1\<lparr>toilState := (toilState l1)\<lparr>successorCounts :=
                         (successorCounts (toilState l1))(jid \<mapsto> n - 1)\<rparr>\<rparr>
              in if \<not> n - 1 \<ge> 0 then Err AssertionError l2
                 else
                   (case successorJobStoreIDToPredecessorJobs (toilState l2) successorJobStoreID of
                      None \<Rightarrow> Err KeyError l2
                    | Some preds \<Rightarrow>
                        if jobWrapper \<notin> set preds then Err ValueError l2
                        else
                          (let preds1 = remove1 jobWrapper preds;
                               l3 = l2\<lparr>toilState := (toilState l2)\<lparr>successorJobStoreIDToPredecessorJobs :=
                                      (successorJobStoreIDToPredecessorJobs (toilState l2))
                                        (successorJobStoreID :=
                                           (if length preds1 = 0 then None else Some preds1))\<rparr>\<rparr>
                           in if n - 1 = 0 then
                                Ok True (l3\<lparr>toilState := (toilState l3)
                                   \<lparr>successorCounts := (successorCounts (toilState l3))(jid := None),
                                    updatedJobs := insert (jobWrapper, 0) (updatedJobs (toilState l3))\<rparr>\<rparr>)
                              else Ok False l3))))"

text \<open>The body of the loop of lines 729-780 over the top group of the stack;
  \<open>successors\<close> is the list of the jobs to issue.\<close>

definition scheduleSuccessor ::
  "addr \<Rightarrow> successorTuple \<Rightarrow> (job_id \<times> resource \<times> resource \<times> resource \<times> bool) list \<Rightarrow> leader
     \<Rightarrow> ((job_id \<times> resource \<times> resource \<times> resource \<times> bool) list, leader) res"
where
  "scheduleSuccessor jobWrapper t successors l =
     (case t of (successorJobStoreID, mem, cor, dsk, preempt, predecessorID) \<Rightarrow>
        (let preds = (case successorJobStoreIDToPredecessorJobs (toilState l) successorJobStoreID of
                        None \<Rightarrow> [] | Some ps \<Rightarrow> ps);
             l1 = l\<lparr>toilState := (toilState l)\<lparr>successorJobStoreIDToPredecessorJobs :=
                      (successorJobStoreIDToPredecessorJobs (toilState l))
                        (successorJobStoreID \<mapsto> preds @ [jobWrapper])\<rparr>\<rparr>
         in case predecessorID of
              None \<Rightarrow> Ok (successors @ [(successorJobStoreID, mem, cor, dsk, preempt)]) l1
            | Some pid \<Rightarrow>
                (case (case jobsToBeScheduledWithMultiplePredecessors (toilState l1) successorJobStoreID of
                         Some a \<Rightarrow> Ok a l1
                       | None \<Rightarrow>
                           (case jobStore_load successorJobStoreID l1 of
                              Err e l2 \<Rightarrow> Err e l2
                            | Ok a l2 \<Rightarrow>
                                Ok a (l2\<lparr>toilState := (toilState l2)
                                         \<lparr>jobsToBeScheduledWithMultiplePredecessors :=
                                            (jobsToBeScheduledWithMultiplePredecessors (toilState l2))
                                              (successorJobStoreID \<mapsto> a)\<rparr>\<rparr>))) of
                   Err e l2 \<Rightarrow> Err e l2
                 | Ok successorJobWrapper l2 \<Rightarrow>
                     (let l3 = l2\<lparr>objs := (objs l2)(successorJobWrapper :=
                                  (objs l2 successorJobWrapper)\<lparr>predecessorsFinished :=
                                     finsert pid (predecessorsFinished (objs l2 successorJobWrapper))\<rparr>)\<rparr>
                      in case (if successorJobStoreID \<in> failedSuccessors (toilState l3)
                               then failedSuccessorOf jobWrapper successorJobStoreID l3
                               else Ok False l3) of
                           Err e l4 \<Rightarrow> Err e l4
                         | Ok goOn l4 \<Rightarrow>
                             if goOn then Ok successors l4
                             else
                               (let S = objs l4 successorJobWrapper in
                                if \<not> int (fcard (predecessorsFinished S)) \<le> predecessorNumber S
                                then Err AssertionError l4
                                else if int (fcard (predecessorsFinished S)) < predecessorNumber S
                                then Ok successors l4
                                else
                                  (case dict_pop (jobsToBeScheduledWithMultiplePredecessors (toilState l4))
                                          successorJobStoreID of
                                     Inl e \<Rightarrow> Err e l4
                                   | Inr (v, d) \<Rightarrow>
                                       Ok (successors @ [(successorJobStoreID, mem, cor, dsk, preempt)])
                                          (l4\<lparr>toilState := (toilState l4)
                                              \<lparr>jobsToBeScheduledWithMultiplePredecessors := d\<rparr>\<rparr>)))))))"

fun scheduleSuccessorList ::
  "addr \<Rightarrow> successorTuple list \<Rightarrow> (job_id \<times> resource \<times> resource \<times> resource \<times> bool) list \<Rightarrow> leader
     \<Rightarrow> ((job_id \<times> resource \<times> resource \<times> resource \<times> bool) list, leader) res"
where
  "scheduleSuccessorList jobWrapper [] successors l = Ok successors l"
| "scheduleSuccessorList jobWrapper (t # ts) successors l =
     (case scheduleSuccessor jobWrapper t successors l of
        Err e l1 \<Rightarrow> Err e l1
      | Ok successors1 l1 \<Rightarrow> scheduleSuccessorList jobWrapper ts successors1 l1)"

text \<open>Lines 715-781.\<close>

definition scheduleSuccessors :: "addr \<Rightarrow> leader \<Rightarrow> (unit, leader) res" where
  "scheduleSuccessors jobWrapper l =
     (let J = objs l jobWrapper; jid = jobStoreID J in
      if \<not> length (last (stack J)) > 0 then Err AssertionError l
      else if jid \<in> dom (successorCounts (toilState l)) then Err AssertionError l
      else
        (case scheduleSuccessorList jobWrapper (last (stack J)) []
                (l\<lparr>toilState := (toilState l)\<lparr>successorCounts :=
                      (successorCounts (toilState l))(jid \<mapsto> int (length (last (stack J))))\<rparr>\<rparr>) of
           Err e l1 \<Rightarrow> Err e l1
         | Ok successors l1 \<Rightarrow> Ok () (issueJobs successors l1)))"

text \<open>The body of the loop over the updated jobs (lines 632-808).\<close>

definition processUpdatedJob ::
  "setOrder \<Rightarrow> nat \<Rightarrow> addr \<times> int \<Rightarrow> leader \<Rightarrow> (unit, leader) res" where
  "processUpdatedJob py depth updated l =
     (case updated of (jobWrapper, resultStatus) \<Rightarrow>
        (let J = objs l jobWrapper; jid = jobStoreID J; ts = toilState l in
         if jobWrapper \<in> jobWrappersWithServicesBeingStarted (serviceManager l) then Ok () l
         else if jid \<in> hasFailedSuccessors ts then
           (case servicesIssued ts jid of
              Some svcs \<Rightarrow> Ok () (killServices svcs True l)
            | None \<Rightarrow>
                if jid \<in> dom (successorCounts ts) then Ok () l
                else if checkpoint J \<noteq> None \<and> remainingRetryCount J > 0
                then Ok () (issueJob jid (memory J) (cores J) (disk J) (preemptable J) l)
                else processTotallyFailedJob py depth jobWrapper l)
         else if command J \<noteq> None \<or> resultStatus \<noteq> 0 then
           (let isServiceJob = jid \<in> dom (serviceJobStoreIDToPredecessorJob ts) in
            if remainingRetryCount J = 0
               \<or> (isServiceJob \<and> \<not> jobStore_fileExists (jobStore l) (errorJobStoreID J))
            then processTotallyFailedJob py depth jobWrapper l
            else Ok () (issueJob jid (memory J) (cores J) (disk J) (preemptable J) l))
         else if length (services J) > 0 then startServices jobWrapper l
         else if length (stack J) > 0 then scheduleSuccessors jobWrapper l
         else
           (case servicesIssued ts jid of
              Some svcs \<Rightarrow> Ok () (killServices svcs False l)
            | None \<Rightarrow>
                if remainingRetryCount J > 0
                then Ok () (issueJob jid (cfg_defaultMemory (config l)) (cfg_defaultCores (config l))
                              (cfg_defaultDisk (config l)) True l)
                else processTotallyFailedJob py depth jobWrapper l)))"

fun processUpdatedJobs ::
  "setOrder \<Rightarrow> nat \<Rightarrow> (addr \<times> int) list \<Rightarrow> leader \<Rightarrow> (unit, leader) res" where
  "processUpdatedJobs py depth [] l = Ok () l"
| "processUpdatedJobs py depth (u # us) l =
     (case processUpdatedJob py depth u l of
        Err e l1 \<Rightarrow> Err e l1
      | Ok v l1 \<Rightarrow> processUpdatedJobs py depth us l1)"

subsection \<open>Leader.innerLoop\<close>

text \<open>What the environment did since the previous iteration: the workers' changes to
  the job store, the changes of the batch system, what the service starter thread
  took from its input queue and put on its two output queues, the two readings of the
  clock, and whether the auxiliary threads are alive.\<close>

record iterationEnv =
  env_jobStore :: "jobStore \<Rightarrow> jobStore"
  env_batchSystem :: "batchSystem \<Rightarrow> batchSystem"
  env_servicesTaken :: nat
  env_serviceJobs :: "(job_id \<times> resource \<times> resource \<times> resource) list"
  env_servicesStarted :: "addr list"
  env_time :: real
  env_timeAfterRescue :: real
  env_statsAlive :: bool
  env_serviceManagerAlive :: bool
  env_clusterScalerAlive :: bool

definition environmentStep :: "iterationEnv \<Rightarrow> leader \<Rightarrow> leader" where
  "environmentStep env l =
     l\<lparr>jobStore := env_jobStore env (jobStore l),
       batchSystem := env_batchSystem env (batchSystem l),
       serviceManager := (serviceManager l)
         \<lparr>jobWrappersWithServicesToStart :=
            drop (env_servicesTaken env) (jobWrappersWithServicesToStart (serviceManager l)),
          serviceJobWrappersToStart :=
            serviceJobWrappersToStart (serviceManager l) @ env_serviceJobs env,
          jobWrappersWithServicesThatHaveStarted :=
            jobWrappersWithServicesThatHaveStarted (serviceManager l) @ env_servicesStarted env\<rparr>\<rparr>"

text \<open>Lines 815-825: the service jobs the service manager has queued are issued. The
  loop ends when the queue is empty; \<open>n\<close> bounds its iterations and is taken as the
  length of the queue plus one.\<close>

primrec issueServiceJobs :: "nat \<Rightarrow> leader \<Rightarrow> (unit, leader) res" where
  "issueServiceJobs 0 = (\<lambda>l. Err StillRunning l)"
| "issueServiceJobs (Suc n) = (\<lambda>l.
     (case getServiceJobsToStart 0 l of
        Err e l1 \<Rightarrow> Err e l1
      | Ok None l1 \<Rightarrow> Ok () l1
      | Ok (Some (serviceJobStoreID, mem, cor, dsk)) l1 \<Rightarrow>
          issueServiceJobs n (issueJob serviceJobStoreID mem cor dsk False l1)))"

text \<open>Lines 827-834: the jobs whose services are running come back as updated jobs,
  with their list of services emptied.\<close>

primrec collectStartedJobs :: "nat \<Rightarrow> leader \<Rightarrow> (unit, leader) res" where
  "collectStartedJobs 0 = (\<lambda>l. Err StillRunning l)"
| "collectStartedJobs (Suc n) = (\<lambda>l.
     (case getJobWrapperWhoseServicesAreRunning 0 l of
        Err e l1 \<Rightarrow> Err e l1
      | Ok None l1 \<Rightarrow> Ok () l1
      | Ok (Some jobWrapper) l1 \<Rightarrow>
          collectStartedJobs n
            (l1\<lparr>objs := (objs l1)(jobWrapper := (objs l1 jobWrapper)\<lparr>services := []\<rparr>),
                toilState := (toilState l1)\<lparr>updatedJobs :=
                   insert (jobWrapper, 0) (updatedJobs (toilState l1))\<rparr>\<rparr>)))"

text \<open>Lines 836-874: one completion event of the batch system, or the rescue of stuck
  jobs when there is none. The value is the new \<open>timeSinceJobsLastRescued\<close>.\<close>

definition gatherUpdatedJob ::
  "setOrder \<Rightarrow> iterationEnv \<Rightarrow> real \<Rightarrow> leader \<Rightarrow> (real, leader) res" where
  "gatherUpdatedJob py env timeSinceJobsLastRescued l =
     (case bs_updated (batchSystem l) of
        (jobBatchSystemID, result, wallTime) # rest \<Rightarrow>
          (let l1 = l\<lparr>batchSystem := (batchSystem l)\<lparr>bs_updated := rest\<rparr>\<rparr> in
           if hasJob l1 jobBatchSystemID then
             (case processFinishedJob jobBatchSystemID result wallTime l1 of
                Err e l2 \<Rightarrow> Err e l2
              | Ok u l2 \<Rightarrow> Ok timeSinceJobsLastRescued l2)
           else Ok timeSinceJobsLastRescued l1)
      | [] \<Rightarrow>
          if env_time env - timeSinceJobsLastRescued \<ge> cfg_rescueJobsFrequency (config l) then
            (case reissueOverLongJobs l of
               Err e l1 \<Rightarrow> Err e l1
             | Ok u l1 \<Rightarrow>
                 (case reissueMissingJobs (order_batch py) 3 l1 of
                    Err e l2 \<Rightarrow> Err e l2
                  | Ok hasNoMissingJobs l2 \<Rightarrow>
                      Ok (if hasNoMissingJobs then env_timeAfterRescue env
                          else timeSinceJobsLastRescued + 60) l2))
          else Ok timeSinceJobsLastRescued l)"

text \<open>Lines 876-881: the checks of the auxiliary threads.\<close>

definition checkThreads :: "iterationEnv \<Rightarrow> leader \<Rightarrow> (unit, leader) res" where
  "checkThreads env l =
     (if \<not> env_statsAlive env then Err RuntimeError l
      else if \<not> env_serviceManagerAlive env then Err RuntimeError l
      else if hasClusterScaler l \<and> \<not> env_clusterScalerAlive env then Err RuntimeError l
      else Ok () l)"

text \<open>The exit criterion of line 811.\<close>

definition exitCriterion :: "leader \<Rightarrow> (bool, leader) res" where
  "exitCriterion l =
     (if updatedJobs (toilState l) = {} then
        (case getNumberOfJobsIssued l of
           Err e l1 \<Rightarrow> Err e l1
         | Ok n l1 \<Rightarrow>
             Ok (n = 0 \<and> serviceJobsIssuedToServiceManager (serviceManager l1) = 0) l1)
      else Ok False l)"

text \<open>One pass through the body of \<^verbatim>\<open>while True\<close> (lines 624-881). The value is None when
  the loop is left, and the new \<open>timeSinceJobsLastRescued\<close> otherwise.\<close>

definition innerLoopIteration ::
  "setOrder \<Rightarrow> nat \<Rightarrow> iterationEnv \<Rightarrow> real \<Rightarrow> leader \<Rightarrow> (real option, leader) res" where
  "innerLoopIteration py depth env timeSinceJobsLastRescued l =
     (let l0 = environmentStep env l in
      case (if updatedJobs (toilState l0) \<noteq> {} then
              (case getNumberOfJobsIssued l0 of
                 Err e l1 \<Rightarrow> Err e l1
               | Ok n l1 \<Rightarrow>
                   processUpdatedJobs py depth (order_updated py (updatedJobs (toilState l1)))
                     (l1\<lparr>toilState := (toilState l1)\<lparr>updatedJobs := {}\<rparr>\<rparr>))
            else Ok () l0) of
        Err e l1 \<Rightarrow> Err e l1
      | Ok u l1 \<Rightarrow>
          (case exitCriterion l1 of
             Err e l2 \<Rightarrow> Err e l2
           | Ok leave l2 \<Rightarrow>
               if leave then Ok None l2
               else
                 (case issueServiceJobs
                         (Suc (length (serviceJobWrappersToStart (serviceManager l2)))) l2 of
                    Err e l3 \<Rightarrow> Err e l3
                  | Ok u l3 \<Rightarrow>
                      (case collectStartedJobs
                              (Suc (length (jobWrappersWithServicesThatHaveStarted (serviceManager l3)))) l3 of
                         Err e l4 \<Rightarrow> Err e l4
                       | Ok u l4 \<Rightarrow>
                           (case gatherUpdatedJob py env timeSinceJobsLastRescued l4 of
                              Err e l5 \<Rightarrow> Err e l5
                            | Ok t l5 \<Rightarrow>
                                (case checkThreads env l5 of
                                   Err e l6 \<Rightarrow> Err e l6
                                 | Ok u l6 \<Rightarrow> Ok (Some t) l6))))))"

text \<open>The consistency check after the loop (lines 885-890).\<close>

definition consistencyCheck :: "leader \<Rightarrow> (unit, leader) res" where
  "consistencyCheck l =
     (let ts = toilState l in
      if \<not> updatedJobs ts = {} then Err AssertionError l
      else if \<not> successorCounts ts = Map.empty then Err AssertionError l
      else if \<not> successorJobStoreIDToPredecessorJobs ts = Map.empty then Err AssertionError l
      else if \<not> serviceJobStoreIDToPredecessorJob ts = Map.empty then Err AssertionError l
      else if \<not> servicesIssued ts = Map.empty then Err AssertionError l
      else Ok () l)"

fun innerLoop ::
  "setOrder \<Rightarrow> nat \<Rightarrow> iterationEnv list \<Rightarrow> real \<Rightarrow> leader \<Rightarrow> (unit, leader) res" where
  "innerLoop py depth [] timeSinceJobsLastRescued l = Err StillRunning l"
| "innerLoop py depth (env # envs) timeSinceJobsLastRescued l =
     (case innerLoopIteration py depth env timeSinceJobsLastRescued l of
        Err e l1 \<Rightarrow> Err e l1
      | Ok None l1 \<Rightarrow> consistencyCheck l1
      | Ok (Some t) l1 \<Rightarrow> innerLoop py depth envs t l1)"

subsection \<open>Leader.run\<close>

text \<open>\<^verbatim>\<open>FailedJobsException(jobStoreLocator, failedJobs, jobStore)\<close> (lines 470-487): the
  exception carries the locator and the number of failed jobs; the text of its message
  is not modelled.\<close>

definition FailedJobsException_init :: "string \<Rightarrow> job_id fset \<Rightarrow> exn" where
  "FailedJobsException_init jobStoreLocator failedJobs =
     FailedJobsException jobStoreLocator (fcard failedJobs)"

text \<open>Lines 593-612, after the main loop and the shutdown of the threads. \<open>unpickle\<close>
  is \<^verbatim>\<open>cPickle.load\<close> on the bytes of the shared file.\<close>

definition finishRun :: "(string \<Rightarrow> exn + 'v) \<Rightarrow> leader \<Rightarrow> ('v, leader) res" where
  "finishRun unpickle l =
     (let l1 = l\<lparr>toilState := (toilState l)\<lparr>totalFailedJobs :=
                   ffilter (jobStore_exists (jobStore l)) (totalFailedJobs (toilState l))\<rparr>\<rparr>
      in if fcard (totalFailedJobs (toilState l1)) > 0
         then Err (FailedJobsException_init (cfg_jobStore (config l1)) (totalFailedJobs (toilState l1))) l1
         else
           (case js_sharedFiles (jobStore l1) ''rootJobReturnValue'' of
              None \<Rightarrow> Err NoSuchFileException l1
            | Some bytes \<Rightarrow>
                (case unpickle bytes of
                   Inr v \<Rightarrow> Ok v l1
                 | Inl e \<Rightarrow>
                     if e = EOFError
                     then Err (FailedJobsException_init (cfg_jobStore (config l1))
                                 (totalFailedJobs (toilState l1))) l1
                     else Err e l1)))"

text \<open>\<^verbatim>\<open>Leader.run\<close> (lines 552-612). Starting and shutting down the threads changes
  none of the state modelled here.\<close>

definition run ::
  "setOrder \<Rightarrow> nat \<Rightarrow> iterationEnv list \<Rightarrow> real \<Rightarrow> (string \<Rightarrow> exn + 'v) \<Rightarrow> leader \<Rightarrow> ('v, leader) res" where
  "run py depth envs startTime unpickle l =
     (case innerLoop py depth envs startTime l of
        Err e l1 \<Rightarrow> Err e l1
      | Ok u l1 \<Rightarrow> finishRun unpickle l1)"

subsection \<open>Leader.__init__\<close>

text \<open>The fields of a new Leader (lines 511-550) before the ToilState is built, over
  a given heap, job store and batch system.\<close>

definition Leader_fields ::
  "config \<Rightarrow> batchSystem \<Rightarrow> bool \<Rightarrow> jobStore \<Rightarrow> (addr \<Rightarrow> jobWrapper) \<Rightarrow> addr \<Rightarrow> leader" where
  "Leader_fields cfg bs provisioner js heap heapNext =
     \<lparr>objs = heap, nextAddr = heapNext, jobStore = js, batchSystem = bs,
      toilState = ToilState_fields, serviceManager = ServiceManager_fields,
      jobBatchSystemIDToIssuedJob = Map.empty, jobsIssued = 0, preemptableJobsIssued = 0,
      reissueMissingJobs_missingHash = Map.empty, config = cfg,
      hasClusterScaler = provisioner, scalerCompleted = []\<rparr>"

definition Leader_init ::
  "nat \<Rightarrow> config \<Rightarrow> batchSystem \<Rightarrow> bool \<Rightarrow> jobStore \<Rightarrow> (addr \<Rightarrow> jobWrapper) \<Rightarrow> addr \<Rightarrow> addr
     \<Rightarrow> (job_id \<rightharpoonup> addr) option \<Rightarrow> (unit, leader) res" where
  "Leader_init depth cfg bs provisioner js heap heapNext rootJobWrapper jobCache =
     (case ToilState_init depth rootJobWrapper jobCache
             (Leader_fields cfg bs provisioner js heap heapNext) of
        Err e l \<Rightarrow> Err e l
      | Ok u l \<Rightarrow>
          if length (bs_issued (batchSystem l)) = 0 then Ok () l else Err AssertionError l)"

subsection \<open>The inputs of the end-to-end scenarios (spec, section 8)\<close>

definition scenarioJob ::
  "job_id \<Rightarrow> string option \<Rightarrow> successorTuple list list \<Rightarrow> int \<Rightarrow> jobWrapper" where
  "scenarioJob jid cmd stk pn =
     \<lparr>jobStoreID = jid, command = cmd, checkpoint = None, stack = stk, services = [],
      predecessorNumber = pn, predecessorsFinished = {||}, remainingRetryCount = 1,
      memory = 1, cores = 1, disk = 1, preemptable = False, logJobStoreFileID = None,
      errorJobStoreID = None, startJobStoreID = None, terminateJobStoreID = None\<rparr>"

definition scenarioStore :: "(job_id \<rightharpoonup> jobWrapper) \<Rightarrow> jobStore" where
  "scenarioStore recs =
     \<lparr>js_records = recs, js_stale = {}, js_files = {}, js_sharedFiles = Map.empty,
      js_className = ''FileJobStore''\<rparr>"

definition scenarioConfig :: config where
  "scenarioConfig =
     \<lparr>cfg_jobStore = ''file:store'', cfg_defaultMemory = 1, cfg_defaultCores = 1,
      cfg_defaultDisk = 1, cfg_maxJobDuration = 100, cfg_rescueJobsFrequency = 10,
      cfg_workerEntryPoint = ''_toil_worker''\<rparr>"

definition scenarioBatchSystem :: batchSystem where
  "scenarioBatchSystem =
     \<lparr>bs_issued = [], bs_running = [], bs_updated = [], bs_nextID = 0, bs_killed = [],
      bs_commands = []\<rparr>"

definition scenarioLeader :: "(job_id \<rightharpoonup> jobWrapper) \<Rightarrow> jobWrapper \<Rightarrow> leader" where
  "scenarioLeader recs rootJob =
     Leader_fields scenarioConfig scenarioBatchSystem False (scenarioStore recs)
       (\<lambda>a. rootJob) 1"

text \<open>S1, the linear chain: root \<open>R\<close> with the single successor \<open>A\<close>.\<close>

definition S1_R :: jobWrapper where
  "S1_R = scenarioJob ''R'' None [[(''A'', 1, 1, 1, False, None)]] 1"

definition S1_A :: jobWrapper where
  "S1_A = scenarioJob ''A'' (Some ''a'') [] 1"

definition S1_leader :: leader where
  "S1_leader = scenarioLeader [''R'' \<mapsto> S1_R, ''A'' \<mapsto> S1_A] S1_R"

text \<open>S2, the diamond: \<open>R\<close> has the successors \<open>A\<close> and \<open>B\<close>, which both name \<open>C\<close>
  (two predecessors) as their successor.\<close>

definition S2_R :: jobWrapper where
  "S2_R = scenarioJob ''R'' None [[(''A'', 1, 1, 1, False, None), (''B'', 1, 1, 1, False, None)]] 1"

definition S2_A :: jobWrapper where
  "S2_A = scenarioJob ''A'' None [[(''C'', 1, 1, 1, False, Some ''A'')]] 1"

definition S2_B :: jobWrapper where
  "S2_B = scenarioJob ''B'' None [[(''C'', 1, 1, 1, False, Some ''B'')]] 1"

definition S2_C :: jobWrapper where
  "S2_C = scenarioJob ''C'' (Some ''c'') [] 2"

definition S2_leader :: leader where
  "S2_leader = scenarioLeader [''R'' \<mapsto> S2_R, ''A'' \<mapsto> S2_A, ''B'' \<mapsto> S2_B, ''C'' \<mapsto> S2_C] S2_R"

text \<open>The traversal of S2 from \<open>R\<close>, without a job cache. \<open>A\<close> is loaded at address 1
  and \<open>S2_atA\<close> is the Leader when the visit of \<open>A\<close> comes to its successor \<open>C\<close>; \<open>C\<close> is
  loaded at address 2 and held back in \<open>S2_afterA\<close> with \<open>A\<close> recorded. \<open>B\<close> is loaded at
  address 3 and \<open>S2_atB\<close> is the Leader when the visit of \<open>B\<close> comes to \<open>C\<close>; in
  \<open>S2_released\<close> both predecessors are recorded and \<open>C\<close> has left the waiting join
  nodes, and in \<open>S2_built\<close> it has been visited and is ready to run.\<close>

definition S2_atA :: leader where
  "S2_atA = S2_leader
     \<lparr>objs := (objs S2_leader)(1 := S2_A), nextAddr := 2,
      toilState := ToilState_fields
        \<lparr>successorJobStoreIDToPredecessorJobs := [''A'' \<mapsto> [0]],
         successorCounts := [''R'' \<mapsto> 2, ''A'' \<mapsto> 1]\<rparr>\<rparr>"

definition S2_afterA :: leader where
  "S2_afterA = S2_leader
     \<lparr>objs := (objs S2_leader)(1 := S2_A, 2 := S2_C\<lparr>predecessorsFinished := {|''A''|}\<rparr>),
      nextAddr := 3,
      toilState := ToilState_fields
        \<lparr>successorJobStoreIDToPredecessorJobs := [''A'' \<mapsto> [0], ''C'' \<mapsto> [1]],
         successorCounts := [''R'' \<mapsto> 2, ''A'' \<mapsto> 1],
         jobsToBeScheduledWithMultiplePredecessors := [''C'' \<mapsto> 2]\<rparr>\<rparr>"

definition S2_atB :: leader where
  "S2_atB = S2_leader
     \<lparr>objs := (objs S2_leader)(1 := S2_A, 2 := S2_C\<lparr>predecessorsFinished := {|''A''|}\<rparr>,
                                 3 := S2_B),
      nextAddr := 4,
      toilState := ToilState_fields
        \<lparr>successorJobStoreIDToPredecessorJobs := [''A'' \<mapsto> [0], ''C'' \<mapsto> [1], ''B'' \<mapsto> [0]],
         successorCounts := [''R'' \<mapsto> 2, ''A'' \<mapsto> 1, ''B'' \<mapsto> 1],
         jobsToBeScheduledWithMultiplePredecessors := [''C'' \<mapsto> 2]\<rparr>\<rparr>"

definition S2_released :: leader where
  "S2_released = S2_leader
     \<lparr>objs := (objs S2_leader)(1 := S2_A, 2 := S2_C\<lparr>predecessorsFinished := {|''A'', ''B''|}\<rparr>,
                                 3 := S2_B),
      nextAddr := 4,
      toilState := ToilState_fields
        \<lparr>successorJobStoreIDToPredecessorJobs :=
           [''A'' \<mapsto> [0], ''C'' \<mapsto> [1, 3], ''B'' \<mapsto> [0]],
         successorCounts := [''R'' \<mapsto> 2, ''A'' \<mapsto> 1, ''B'' \<mapsto> 1]\<rparr>\<rparr>"

definition S2_built :: leader where
  "S2_built = S2_released
     \<lparr>toilState := (toilState S2_released)\<lparr>updatedJobs := {(2, 0)}\<rparr>\<rparr>"







text \<open>The Leader of S1 once its ToilState is built: \<open>A\<close> is loaded at address 1 and
  is ready to run, \<open>R\<close> waits for one successor.\<close>

definition S1_built :: leader where
  "S1_built = S1_leader
     \<lparr>objs := (objs S1_leader)(1 := S1_A), nextAddr := 2,
      toilState := ToilState_fields
        \<lparr>successorJobStoreIDToPredecessorJobs := [''A'' \<mapsto> [0]],
         successorCounts := [''R'' \<mapsto> 1],
         updatedJobs := {(1, 0)}\<rparr>\<rparr>"

text \<open>S5, the service lifecycle: \<open>J\<close> has one service group with the service \<open>S1\<close>.
  \<open>S5_started\<close> is the Leader after \<open>scheduleServices\<close>, once the starter thread has
  queued the service job and handed \<open>J\<close> back.\<close>

definition S5_J :: jobWrapper where
  "S5_J = (scenarioJob ''J'' None [] 1)
            \<lparr>services := [[(''S1'', 1, 1, 1, ''startID1'', ''termID1'', ''errID1'')]]\<rparr>"

definition S5_leader :: leader where
  "S5_leader = (scenarioLeader [''J'' \<mapsto> S5_J] S5_J)
     \<lparr>jobStore := (scenarioStore [''J'' \<mapsto> S5_J])\<lparr>js_files := {''startID1'', ''termID1'', ''errID1''}\<rparr>\<rparr>"

definition S5_started :: leader where
  "S5_started = (scheduleServices 0 S5_leader)
     \<lparr>serviceManager := (serviceManager (scheduleServices 0 S5_leader))
        \<lparr>jobWrappersWithServicesToStart := [],
         serviceJobWrappersToStart := [(''S1'', 1, 1, 1)],
         jobWrappersWithServicesThatHaveStarted := [0]\<rparr>\<rparr>"

text \<open>S3: \<open>R\<close> has the successor \<open>A\<close>, which has the successors \<open>B\<close> and \<open>C\<close>.\<close>

definition S3_R :: jobWrapper where
  "S3_R = scenarioJob ''R'' None [[(''A'', 1, 1, 1, False, None)]] 1"

definition S3_A :: jobWrapper where
  "S3_A = scenarioJob ''A'' None [[(''B'', 1, 1, 1, False, None), (''C'', 1, 1, 1, False, None)]] 1"

definition S3_B :: jobWrapper where
  "S3_B = scenarioJob ''B'' (Some ''b'') [] 1"

definition S3_C :: jobWrapper where
  "S3_C = (scenarioJob ''C'' (Some ''c'') [] 1)\<lparr>remainingRetryCount := 0\<rparr>"

definition S3_store :: jobStore where
  "S3_store = scenarioStore [''R'' \<mapsto> S3_R, ''A'' \<mapsto> S3_A, ''B'' \<mapsto> S3_B, ''C'' \<mapsto> S3_C]"

text \<open>S4, the checkpoint restart: the root \<open>A\<close> has the checkpoint \<^verbatim>\<open>orig-cmd\<close>, two
  retries left and the successor \<open>B\<close>; its command is gone.\<close>

definition S4_A :: jobWrapper where
  "S4_A = (scenarioJob ''A'' None [[(''B'', 1, 1, 1, False, None)]] 1)
            \<lparr>checkpoint := Some ''orig-cmd'', remainingRetryCount := 2\<rparr>"

definition S4_B :: jobWrapper where
  "S4_B = scenarioJob ''B'' (Some ''b'') [] 1"

definition S4_leader :: leader where
  "S4_leader = scenarioLeader [''A'' \<mapsto> S4_A, ''B'' \<mapsto> S4_B] S4_A"

text \<open>S6, the rescue of a missing job: \<open>J\<close> is issued, then the batch system stops
  listing it. \<open>S6_cycle n\<close> is the Leader after \<open>n\<close> rescue cycles with
  \<open>killAfterNTimesMissing = 3\<close>; in \<open>S6_reappeared\<close> the batch system lists the job
  again after the first cycle.\<close>

definition S6_J :: jobWrapper where
  "S6_J = scenarioJob ''J'' (Some ''j'') [] 1"

definition S6_issued :: leader where
  "S6_issued = issueJob ''J'' 1 1 1 False (scenarioLeader [''J'' \<mapsto> S6_J] S6_J)"

definition S6_lost :: leader where
  "S6_lost = S6_issued\<lparr>batchSystem := (batchSystem S6_issued)\<lparr>bs_issued := []\<rparr>\<rparr>"

primrec S6_cycle :: "nat \<Rightarrow> leader" where
  "S6_cycle 0 = S6_lost"
| "S6_cycle (Suc n) = stateOf (reissueMissingJobs sorted_list_of_set 3 (S6_cycle n))"

definition S6_reappeared :: leader where
  "S6_reappeared = (S6_cycle 1)\<lparr>batchSystem := (batchSystem (S6_cycle 1))\<lparr>bs_issued := [0]\<rparr>\<rparr>"

text \<open>The environment of the scenarios: sets are iterated in increasing order; in a
  quiet iteration nothing happens outside the Leader and all threads are alive; a
  pickled value is the text of the file, and an empty file makes \<^verbatim>\<open>cPickle.load\<close> raise
  EOFError.\<close>

definition scenarioOrder :: setOrder where
  "scenarioOrder = \<lparr>order_ids = sorted_list_of_set, order_updated = sorted_list_of_set,
                     order_batch = sorted_list_of_set\<rparr>"

definition quietEnv :: iterationEnv where
  "quietEnv = \<lparr>env_jobStore = id, env_batchSystem = id, env_servicesTaken = 0,
                env_serviceJobs = [], env_servicesStarted = [], env_time = 0,
                env_timeAfterRescue = 0, env_statsAlive = True,
                env_serviceManagerAlive = True, env_clusterScalerAlive = True\<rparr>"

definition scenarioUnpickle :: "string \<Rightarrow> exn + string" where
  "scenarioUnpickle bytes = (if bytes = [] then Inl EOFError else Inr bytes)"

text \<open>The Leader of S1 when every job has run and has been deleted, with the given
  bytes in the shared file of the root job's return value.\<close>

definition S1_finished :: "string \<Rightarrow> leader" where
  "S1_finished bytes =
     (scenarioLeader Map.empty S1_R)
       \<lparr>jobStore := (scenarioStore Map.empty)\<lparr>js_sharedFiles := [''rootJobReturnValue'' \<mapsto> bytes]\<rparr>\<rparr>"

text \<open>The Leader of S1 when the loop has ended with \<open>A\<close> and a job \<open>B\<close> recorded as
  totally failed; the job store still holds \<open>A\<close> but not \<open>B\<close>.\<close>

definition S1_failed :: leader where
  "S1_failed =
     (scenarioLeader [''A'' \<mapsto> S1_A] S1_R)
       \<lparr>toilState := ToilState_fields\<lparr>totalFailedJobs := {|''A'', ''B''|}\<rparr>\<rparr>"

text \<open>The environment of S1: in the second iteration the worker has run \<open>A\<close> and
  deleted it and the batch system reports the end of batch job 0; in the fourth the
  same has happened to the clean-up of \<open>R\<close>, batch job 1.\<close>

definition workerDeletes :: "job_id \<Rightarrow> jobStore \<Rightarrow> jobStore" where
  "workerDeletes jid js = js\<lparr>js_records := (js_records js)(jid := None)\<rparr>"

definition batchReports :: "int \<Rightarrow> int \<Rightarrow> batchSystem \<Rightarrow> batchSystem" where
  "batchReports b exitStatus bs =
     bs\<lparr>bs_updated := bs_updated bs @ [(b, exitStatus, None)],
        bs_issued := removeAll b (bs_issued bs)\<rparr>"

definition S1_envs :: "iterationEnv list" where
  "S1_envs =
     [quietEnv,
      quietEnv\<lparr>env_jobStore := workerDeletes ''A'', env_batchSystem := batchReports 0 0\<rparr>,
      quietEnv,
      quietEnv\<lparr>env_jobStore := workerDeletes ''R'', env_batchSystem := batchReports 1 0\<rparr>,
      quietEnv]"

subsection \<open>Sets the properties are stated with\<close>

text \<open>The IDs in every successor group of a wrapper's stack.\<close>

definition successorIDs :: "jobWrapper \<Rightarrow> job_id set" where
  "successorIDs jw = succID ` set (concat (stack jw))"

text \<open>The descendants the failure-subtree walk of the spec (section 4.3) reaches from
  the IDs \<open>T\<close>: IDs that are not in \<open>seen\<close>, found in \<open>T\<close> or in any successor group of
  a reached job that the job store still holds.\<close>

inductive_set reached :: "jobStore \<Rightarrow> job_id set \<Rightarrow> job_id set \<Rightarrow> job_id set"
  for js :: jobStore and T :: "job_id set" and seen :: "job_id set"
where
  start: "s \<in> T \<Longrightarrow> s \<notin> seen \<Longrightarrow> s \<in> reached js T seen"
| below: "r \<in> reached js T seen \<Longrightarrow> js_records js r = Some jw \<Longrightarrow> s \<in> successorIDs jw
           \<Longrightarrow> s \<notin> seen \<Longrightarrow> s \<in> reached js T seen"

text \<open>What one call of the walk has done when it returns: it has added a set \<open>N\<close> of
  new IDs to both sets, \<open>N\<close> covers \<open>T\<close>, is closed under the successors of the jobs
  in the store, and holds reached IDs only.\<close>

definition walked ::
  "jobStore \<Rightarrow> job_id set \<Rightarrow> job_id set \<times> job_id set \<Rightarrow> job_id set \<times> job_id set \<Rightarrow> bool" where
  "walked js T st st' \<longleftrightarrow>
     (\<exists>N. st' = (fst st \<union> N, snd st \<union> N) \<and> N \<inter> snd st = {} \<and> T \<subseteq> snd st \<union> N
        \<and> (\<forall>r\<in>N. \<forall>jw. js_records js r = Some jw \<longrightarrow> successorIDs jw \<subseteq> snd st \<union> N)
        \<and> N \<subseteq> reached js T (snd st))"

text \<open>The count the scan of \<open>reissueMissingJobs\<close> gives a job it finds missing, from
  the hash it starts with.\<close>

definition timesMissing :: "(int \<rightharpoonup> int) \<Rightarrow> int \<Rightarrow> int" where
  "timesMissing missingHash b = (case missingHash b of Some n \<Rightarrow> n + 1 | None \<Rightarrow> 1)"

text \<open>The tracked jobs the batch system does not list.\<close>

definition missingJobs :: "leader \<Rightarrow> int set" where
  "missingJobs l = dom (jobBatchSystemIDToIssuedJob l) - set (bs_issued (batchSystem l))"

text \<open>Two states with the same missing hash and the same batch system.\<close>

definition rescueFrame :: "leader \<Rightarrow> leader \<Rightarrow> bool" where
  "rescueFrame l l' \<longleftrightarrow> reissueMissingJobs_missingHash l' = reissueMissingJobs_missingHash l
      \<and> batchSystem l' = batchSystem l"

text \<open>What an invocation of \<open>reissueMissingJobs\<close> needs to get past its assertion: the
  batch system lists tracked jobs only; and \<open>order\<close> lists the missing jobs once each,
  as Python's iteration over the set does.\<close>

definition rescuePre :: "(int set \<Rightarrow> int list) \<Rightarrow> leader \<Rightarrow> bool" where
  "rescuePre order l \<longleftrightarrow>
     set (bs_issued (batchSystem l)) \<subseteq> dom (jobBatchSystemIDToIssuedJob l)
     \<and> set (order (missingJobs l)) = missingJobs l \<and> distinct (order (missingJobs l))"

text \<open>The totally failed jobs the job store still holds: the set \<open>run\<close> keeps after
  its filter.\<close>

definition failedJobsLeft :: "leader \<Rightarrow> job_id fset" where
  "failedJobsLeft l = ffilter (jobStore_exists (jobStore l)) (totalFailedJobs (toilState l))"

text \<open>From \<open>l\<close> to \<open>l'\<close> no predecessor has been taken off the list of a successor and
  no key has left \<open>successorCounts\<close>.\<close>

definition predsGrow :: "leader \<Rightarrow> leader \<Rightarrow> bool" where
  "predsGrow l l' \<longleftrightarrow>
     (\<forall>sid ps. successorJobStoreIDToPredecessorJobs (toilState l) sid = Some ps \<longrightarrow>
        (\<exists>ps'. successorJobStoreIDToPredecessorJobs (toilState l') sid = Some ps' \<and> set ps \<subseteq> set ps'))
     \<and> dom (successorCounts (toilState l)) \<subseteq> dom (successorCounts (toilState l'))"

text \<open>The join nodes waiting in \<open>jobsToBeScheduledWithMultiplePredecessors\<close> are held
  back: none of them is in \<open>updatedJobs\<close>, and each has recorded fewer finished
  predecessors than it expects.\<close>

definition joinsHeld :: "leader \<Rightarrow> bool" where
  "joinsHeld l \<longleftrightarrow>
     (\<forall>sid a. jobsToBeScheduledWithMultiplePredecessors (toilState l) sid = Some a \<longrightarrow>
        (\<forall>rs. (a, rs) \<notin> updatedJobs (toilState l))
        \<and> int (fcard (predecessorsFinished (objs l a))) < predecessorNumber (objs l a))"

text \<open>The wrappers the traversal has come across: without a job cache the objects
  allocated so far, with a job cache the root and the objects the cache holds for the
  successors named so far. The traversal needs the cache to hold a different object
  for every job ID, none of them the root wrapper.\<close>

definition known :: "(job_id \<rightharpoonup> addr) option \<Rightarrow> addr \<Rightarrow> leader \<Rightarrow> addr \<Rightarrow> bool" where
  "known jobCache rootJob l a \<longleftrightarrow>
     (case jobCache of
        None \<Rightarrow> a < nextAddr l
      | Some cache \<Rightarrow>
          a = rootJob
          \<or> (\<exists>sid \<in> dom (successorJobStoreIDToPredecessorJobs (toilState l)). cache sid = Some a))"

definition cacheDistinct :: "(job_id \<rightharpoonup> addr) option \<Rightarrow> addr \<Rightarrow> bool" where
  "cacheDistinct jobCache rootJob \<longleftrightarrow>
     (case jobCache of
        None \<Rightarrow> True
      | Some cache \<Rightarrow>
          rootJob \<notin> ran cache
          \<and> (\<forall>sid sid' a. cache sid = Some a \<longrightarrow> cache sid' = Some a \<longrightarrow> sid = sid'))"

text \<open>The invariant of the traversal: the waiting join nodes are held back, they are
  distinct objects, the waiting join nodes and the wrappers in \<open>updatedJobs\<close> are
  wrappers the traversal has come across, and so are the wrappers listed as
  predecessors, none of which is a waiting join node.\<close>

definition joinInv :: "(job_id \<rightharpoonup> addr) option \<Rightarrow> addr \<Rightarrow> leader \<Rightarrow> bool" where
  "joinInv jobCache rootJob l \<longleftrightarrow>
     joinsHeld l
     \<and> (\<forall>sid a. jobsToBeScheduledWithMultiplePredecessors (toilState l) sid = Some a \<longrightarrow>
          known jobCache rootJob l a)
     \<and> (\<forall>sid sid' a. jobsToBeScheduledWithMultiplePredecessors (toilState l) sid = Some a \<longrightarrow>
          jobsToBeScheduledWithMultiplePredecessors (toilState l) sid' = Some a \<longrightarrow> sid = sid')
     \<and> (\<forall>a rs. (a, rs) \<in> updatedJobs (toilState l) \<longrightarrow> known jobCache rootJob l a)
     \<and> (\<forall>sid ps b. successorJobStoreIDToPredecessorJobs (toilState l) sid = Some ps \<longrightarrow>
          b \<in> set ps \<longrightarrow>
          known jobCache rootJob l b
          \<and> b \<notin> ran (jobsToBeScheduledWithMultiplePredecessors (toilState l)))"

text \<open>From \<open>l\<close> to \<open>l'\<close> the wrappers come across stay so, and those that were not
  waiting join nodes have not become waiting join nodes.\<close>

definition knownKept :: "(job_id \<rightharpoonup> addr) option \<Rightarrow> addr \<Rightarrow> leader \<Rightarrow> leader \<Rightarrow> bool" where
  "knownKept jobCache rootJob l l' \<longleftrightarrow>
     (\<forall>b. known jobCache rootJob l b \<longrightarrow>
        known jobCache rootJob l' b
        \<and> (b \<notin> ran (jobsToBeScheduledWithMultiplePredecessors (toilState l)) \<longrightarrow>
             b \<notin> ran (jobsToBeScheduledWithMultiplePredecessors (toilState l'))))"

definition visitKeepsJoins ::
  "(job_id \<rightharpoonup> addr) option \<Rightarrow> addr \<Rightarrow> (addr \<Rightarrow> leader \<Rightarrow> (unit, leader) res) \<Rightarrow> bool" where
  "visitKeepsJoins jobCache rootJob recurse \<longleftrightarrow>
     (\<forall>a l l'. joinInv jobCache rootJob l \<longrightarrow> known jobCache rootJob l a \<longrightarrow>
        a \<notin> ran (jobsToBeScheduledWithMultiplePredecessors (toilState l)) \<longrightarrow>
        recurse a l = Ok () l' \<longrightarrow>
        joinInv jobCache rootJob l' \<and> knownKept jobCache rootJob l l')"

text \<open>The wrappers the Leader holds on to outside the waiting join nodes: those in
  \<open>updatedJobs\<close>, those listed as predecessors of a successor, those waiting for a
  service, and those whose services are being started.\<close>

definition inUse :: "leader \<Rightarrow> addr \<Rightarrow> bool" where
  "inUse l a \<longleftrightarrow>
     (\<exists>rs. (a, rs) \<in> updatedJobs (toilState l))
     \<or> (\<exists>sid ps. successorJobStoreIDToPredecessorJobs (toilState l) sid = Some ps \<and> a \<in> set ps)
     \<or> (\<exists>sid. serviceJobStoreIDToPredecessorJob (toilState l) sid = Some a)
     \<or> a \<in> jobWrappersWithServicesBeingStarted (serviceManager l)"

text \<open>The waiting join nodes are kept apart: each is an allocated object that is
  neither in use nor among the wrappers \<open>X\<close> that are being processed, and everything
  in use or being processed is allocated.\<close>

definition joinsApart :: "addr set \<Rightarrow> leader \<Rightarrow> bool" where
  "joinsApart X l \<longleftrightarrow>
     (\<forall>sid a. jobsToBeScheduledWithMultiplePredecessors (toilState l) sid = Some a \<longrightarrow>
        a < nextAddr l \<and> \<not> inUse l a \<and> a \<notin> X)
     \<and> (\<forall>a. inUse l a \<or> a \<in> X \<longrightarrow> a < nextAddr l)"

text \<open>From \<open>l\<close> to \<open>l'\<close> the waiting join nodes are the same and whatever is in use
  at the end was in use before, is among the wrappers \<open>X\<close> or has been allocated in
  between.\<close>

definition useFrame :: "addr set \<Rightarrow> leader \<Rightarrow> leader \<Rightarrow> bool" where
  "useFrame X l l' \<longleftrightarrow>
     nextAddr l \<le> nextAddr l'
     \<and> jobsToBeScheduledWithMultiplePredecessors (toilState l')
         = jobsToBeScheduledWithMultiplePredecessors (toilState l)
     \<and> (\<forall>a. inUse l' a \<longrightarrow> inUse l a \<or> a \<in> X \<or> (nextAddr l \<le> a \<and> a < nextAddr l'))"

text \<open>From \<open>l\<close> to \<open>l'\<close> objects have been allocated only, and the service manager
  and the wrappers waiting for a service are the same.\<close>

definition buildFrame :: "leader \<Rightarrow> leader \<Rightarrow> bool" where
  "buildFrame l l' \<longleftrightarrow>
     nextAddr l \<le> nextAddr l'
     \<and> serviceManager l' = serviceManager l
     \<and> serviceJobStoreIDToPredecessorJob (toilState l')
         = serviceJobStoreIDToPredecessorJob (toilState l)"

section \<open>Verified properties\<close>

lemmas scenario_defs = scenarioLeader_def scenarioJob_def scenarioStore_def
  scenarioConfig_def scenarioBatchSystem_def Leader_fields_def ToilState_fields_def
  ServiceManager_fields_def

lemmas S1_defs = S1_leader_def S1_R_def S1_A_def S1_built_def

lemmas S3_defs = S3_R_def S3_A_def S3_B_def S3_C_def S3_store_def

lemmas S5_defs = S5_J_def S5_leader_def S5_started_def

lemmas res_defs = returned_def raised_def stateOf_def

lemmas S2_defs = S2_leader_def S2_R_def S2_A_def S2_B_def S2_C_def

lemmas build_defs = ToilState_init_def readyToProcess_def buildSuccessor_def
  processSuccessorWithMultiplePredecessors_def getJob_def jobStore_load_def dict_pop_def
  dict_getitem_def succID_def succPred_def Let_def

lemma S1_build: "ToilState_init 2 0 None S1_leader = Ok () S1_built"
  by (simp add: S1_defs scenario_defs build_defs eval_nat_numeral fun_upd_twist)

subsection \<open>The job cache of the traversal\<close>

text \<open>
  C3. With a job cache supplied, a job ID that is not a key of the cache is not
  loaded from the job store: the subscript raises KeyError, which the handler for
  ValueError does not catch. Here the cache is empty and the job is in the store.
\<close>

theorem getJob_cache_miss_raises_KeyError:
  "jobStore_load ''A'' S1_leader = Ok 1 (S1_leader\<lparr>objs := (objs S1_leader)(1 := S1_A), nextAddr := 2\<rparr>)
   \<and> getJob None ''A'' S1_leader = jobStore_load ''A'' S1_leader
   \<and> getJob (Some Map.empty) ''A'' S1_leader = Err KeyError S1_leader"
  by (simp add: getJob_def dict_getitem_def jobStore_load_def S1_defs scenario_defs)

subsection \<open>The counter of the service manager\<close>

text \<open>
  C9. \<open>scheduleServices J\<close> raises \<open>serviceJobsIssuedToServiceManager\<close> by the number of
  service tuples in all service groups of \<open>J\<close> plus one; a call of
  \<open>getServiceJobsToStart\<close> or \<open>getJobWrapperWhoseServicesAreRunning\<close> that returns a
  value lowers it by exactly one, and a call that returns None changes nothing.
\<close>

theorem serviceManager_counter:
  "serviceJobsIssuedToServiceManager (serviceManager (scheduleServices J l)) =
     serviceJobsIssuedToServiceManager (serviceManager l)
       + int (sum_list (map length (services (objs l J)))) + 1
   \<and> (\<forall>t l'. getServiceJobsToStart w l = Ok (Some t) l' \<longrightarrow>
        serviceJobsIssuedToServiceManager (serviceManager l') =
          serviceJobsIssuedToServiceManager (serviceManager l) - 1)
   \<and> (\<forall>l'. getServiceJobsToStart w l = Ok None l' \<longrightarrow> l' = l)
   \<and> (\<forall>a l'. getJobWrapperWhoseServicesAreRunning w l = Ok (Some a) l' \<longrightarrow>
        serviceJobsIssuedToServiceManager (serviceManager l') =
          serviceJobsIssuedToServiceManager (serviceManager l) - 1)
   \<and> (\<forall>l'. getJobWrapperWhoseServicesAreRunning w l = Ok None l' \<longrightarrow> l' = l)"
  by (auto simp: scheduleServices_def getServiceJobsToStart_def
        getJobWrapperWhoseServicesAreRunning_def Let_def
      split: sum.splits if_splits prod.splits)

theorem serviceManager_counter_witness:
  "serviceJobsIssuedToServiceManager (serviceManager (scheduleServices 0 S5_leader)) = 2
   \<and> returned (getServiceJobsToStart 0 (scheduleServices 0 S5_leader)) = Some None
   \<and> stateOf (getServiceJobsToStart 0 (scheduleServices 0 S5_leader)) = scheduleServices 0 S5_leader
   \<and> returned (getJobWrapperWhoseServicesAreRunning 0 (scheduleServices 0 S5_leader)) = Some None
   \<and> returned (getServiceJobsToStart 0 S5_started) = Some (Some (''S1'', 1, 1, 1))
   \<and> serviceJobsIssuedToServiceManager (serviceManager (stateOf (getServiceJobsToStart 0 S5_started))) = 1
   \<and> returned (getJobWrapperWhoseServicesAreRunning 0 S5_started) = Some (Some 0)
   \<and> serviceJobsIssuedToServiceManager
        (serviceManager (stateOf (getJobWrapperWhoseServicesAreRunning 0 S5_started))) = 1"
proof -
  let ?l1 = "scheduleServices 0 S5_leader"
  have c0: "serviceJobsIssuedToServiceManager (serviceManager S5_leader) = 0"
    "services (objs S5_leader 0) = [[(''S1'', 1, 1, 1, ''startID1'', ''termID1'', ''errID1'')]]"
    by (simp_all add: S5_defs scenario_defs)
  have c1: "serviceJobsIssuedToServiceManager (serviceManager ?l1) = 2"
    using serviceManager_counter[of 0 S5_leader 0] c0 by simp
  have cs: "serviceJobsIssuedToServiceManager (serviceManager S5_started) = 2"
    using c1 by (simp add: S5_started_def)
  have q1: "serviceJobWrappersToStart (serviceManager ?l1) = []"
    "jobWrappersWithServicesThatHaveStarted (serviceManager ?l1) = []"
    by (simp_all add: scheduleServices_def Let_def S5_defs scenario_defs)
  have n1: "getServiceJobsToStart 0 ?l1 = Ok None ?l1"
    using q1 by (simp add: getServiceJobsToStart_def Queue_get_def Let_def)
  have n2: "getJobWrapperWhoseServicesAreRunning 0 ?l1 = Ok None ?l1"
    using q1 by (simp add: getJobWrapperWhoseServicesAreRunning_def Queue_get_def Let_def)
  have q2: "serviceJobWrappersToStart (serviceManager S5_started) = [(''S1'', 1, 1, 1)]"
    "jobWrappersWithServicesThatHaveStarted (serviceManager S5_started) = [0]"
    "0 \<in> jobWrappersWithServicesBeingStarted (serviceManager S5_started)"
    by (simp_all add: S5_started_def scheduleServices_def Let_def)
  obtain l2 where g1: "getServiceJobsToStart 0 S5_started = Ok (Some (''S1'', 1, 1, 1)) l2"
    using q2 cs by (simp add: getServiceJobsToStart_def Queue_get_def Let_def)
  have c2: "serviceJobsIssuedToServiceManager (serviceManager l2) = 1"
    using serviceManager_counter[of 0 S5_started 0] g1 cs by simp
  obtain l3 where g2: "getJobWrapperWhoseServicesAreRunning 0 S5_started = Ok (Some 0) l3"
    using q2 cs by (simp add: getJobWrapperWhoseServicesAreRunning_def Queue_get_def Let_def)
  have c3: "serviceJobsIssuedToServiceManager (serviceManager l3) = 1"
    using serviceManager_counter[of 0 S5_started 0] g2 cs by simp
  show ?thesis using c1 n1 n2 g1 c2 g2 c3 by (simp add: res_defs)
qed

subsection \<open>Leader._updatePredecessorStatus\<close>

lemma updatePredecessor_step:
  assumes "successorCounts (toilState l) (jobStoreID (objs l P)) = Some n"
    and "n = 1 \<longrightarrow> stack (objs l P) \<noteq> []"
  shows "\<exists>l'. updatePredecessor P l = Ok () l'
    \<and> l'\<lparr>objs := objs l, toilState := toilState l\<rparr> = l
    \<and> (toilState l')\<lparr>successorCounts := successorCounts (toilState l),
          updatedJobs := updatedJobs (toilState l)\<rparr> = toilState l
    \<and> (\<forall>a. jobStoreID (objs l' a) = jobStoreID (objs l a))
    \<and> (\<forall>a. a \<noteq> P \<longrightarrow> objs l' a = objs l a)
    \<and> (\<forall>i. i \<noteq> jobStoreID (objs l P) \<longrightarrow>
          successorCounts (toilState l') i = successorCounts (toilState l) i)
    \<and> (if n = 1
        then successorCounts (toilState l') (jobStoreID (objs l P)) = None
           \<and> objs l' P = (objs l P)\<lparr>stack := butlast (stack (objs l P))\<rparr>
           \<and> updatedJobs (toilState l') = insert (P, 0) (updatedJobs (toilState l))
        else successorCounts (toilState l') (jobStoreID (objs l P)) = Some (n - 1)
           \<and> objs l' P = objs l P
           \<and> updatedJobs (toilState l') = updatedJobs (toilState l))"
  using assms by (auto simp: updatePredecessor_def Let_def)

lemma updatePredecessor_Err:
  assumes "\<not> (\<exists>n. successorCounts (toilState l) (jobStoreID (objs l P)) = Some n
            \<and> (n = 1 \<longrightarrow> stack (objs l P) \<noteq> []))"
  shows "\<exists>e l'. updatePredecessor P l = Err e l'"
  using assms by (auto simp: updatePredecessor_def Let_def split: option.splits)

lemma distinct_ids_head:
  assumes "distinct (map (\<lambda>P. jobStoreID (objs l P)) (p # ps))" and "Q \<in> set ps"
  shows "jobStoreID (objs l Q) \<noteq> jobStoreID (objs l p) \<and> Q \<noteq> p"
proof -
  have idnot: "jobStoreID (objs l p) \<notin> (\<lambda>P. jobStoreID (objs l P)) ` set ps"
    using assms(1) by auto
  have "jobStoreID (objs l Q) \<noteq> jobStoreID (objs l p)"
  proof
    assume e: "jobStoreID (objs l Q) = jobStoreID (objs l p)"
    from assms(2) have "jobStoreID (objs l Q) \<in> (\<lambda>P. jobStoreID (objs l P)) ` set ps"
      by (rule_tac imageI)
    with e idnot show False by simp
  qed
  then show ?thesis by auto
qed

lemma updatePredecessors_loop:
  assumes "distinct (map (\<lambda>P. jobStoreID (objs l P)) ps)"
    and "\<forall>P\<in>set ps. \<exists>n. successorCounts (toilState l) (jobStoreID (objs l P)) = Some n
            \<and> (n = 1 \<longrightarrow> stack (objs l P) \<noteq> [])"
  shows "\<exists>l'. updatePredecessors ps l = Ok () l'
    \<and> l'\<lparr>objs := objs l, toilState := toilState l\<rparr> = l
    \<and> (toilState l')\<lparr>successorCounts := successorCounts (toilState l),
          updatedJobs := updatedJobs (toilState l)\<rparr> = toilState l
    \<and> (\<forall>a. jobStoreID (objs l' a) = jobStoreID (objs l a))
    \<and> (\<forall>a. a \<notin> set ps \<longrightarrow> objs l' a = objs l a)
    \<and> (\<forall>i. i \<notin> (\<lambda>P. jobStoreID (objs l P)) ` set ps \<longrightarrow>
          successorCounts (toilState l') i = successorCounts (toilState l) i)
    \<and> (\<forall>P\<in>set ps. \<forall>n. successorCounts (toilState l) (jobStoreID (objs l P)) = Some n \<longrightarrow>
          (if n = 1
           then successorCounts (toilState l') (jobStoreID (objs l P)) = None
              \<and> objs l' P = (objs l P)\<lparr>stack := butlast (stack (objs l P))\<rparr>
              \<and> (P, 0) \<in> updatedJobs (toilState l')
           else successorCounts (toilState l') (jobStoreID (objs l P)) = Some (n - 1)
              \<and> objs l' P = objs l P))
    \<and> updatedJobs (toilState l') = updatedJobs (toilState l) \<union>
          {(P, 0) | P. P \<in> set ps \<and> successorCounts (toilState l) (jobStoreID (objs l P)) = Some 1}"
  using assms
proof (induction ps arbitrary: l)
  case Nil
  then show ?case by simp
next
  case (Cons p ps)
  from Cons.prems obtain n where n: "successorCounts (toilState l) (jobStoreID (objs l p)) = Some n"
      "n = 1 \<longrightarrow> stack (objs l p) \<noteq> []" by auto
  from updatePredecessor_step[OF n] obtain l1 where
    s1: "updatePredecessor p l = Ok () l1"
    and f1: "l1\<lparr>objs := objs l, toilState := toilState l\<rparr> = l
      \<and> (toilState l1)\<lparr>successorCounts := successorCounts (toilState l),
            updatedJobs := updatedJobs (toilState l)\<rparr> = toilState l"
    and id1: "\<forall>a. jobStoreID (objs l1 a) = jobStoreID (objs l a)"
    and o1: "\<forall>a. a \<noteq> p \<longrightarrow> objs l1 a = objs l a"
    and c1: "\<forall>i. i \<noteq> jobStoreID (objs l p) \<longrightarrow>
          successorCounts (toilState l1) i = successorCounts (toilState l) i"
    and p1: "if n = 1
        then successorCounts (toilState l1) (jobStoreID (objs l p)) = None
           \<and> objs l1 p = (objs l p)\<lparr>stack := butlast (stack (objs l p))\<rparr>
           \<and> updatedJobs (toilState l1) = insert (p, 0) (updatedJobs (toilState l))
        else successorCounts (toilState l1) (jobStoreID (objs l p)) = Some (n - 1)
           \<and> objs l1 p = objs l p
           \<and> updatedJobs (toilState l1) = updatedJobs (toilState l)"
    by blast
  have pnot: "p \<notin> set ps" using Cons.prems(1) by auto
  have idnot: "jobStoreID (objs l p) \<notin> (\<lambda>P. jobStoreID (objs l P)) ` set ps"
    using Cons.prems(1) by auto
  have idne: "\<forall>P\<in>set ps. jobStoreID (objs l P) \<noteq> jobStoreID (objs l p)"
    using distinct_ids_head[OF Cons.prems(1)] by blast
  have d1: "distinct (map (\<lambda>P. jobStoreID (objs l1 P)) ps)"
    using Cons.prems(1) id1 by simp
  have pre1: "\<forall>P\<in>set ps. \<exists>n. successorCounts (toilState l1) (jobStoreID (objs l1 P)) = Some n
            \<and> (n = 1 \<longrightarrow> stack (objs l1 P) \<noteq> [])"
  proof
    fix P assume P: "P \<in> set ps"
    then have "P \<noteq> p" using pnot by auto
    moreover have "jobStoreID (objs l P) \<noteq> jobStoreID (objs l p)" using P idne by blast
    ultimately show "\<exists>n. successorCounts (toilState l1) (jobStoreID (objs l1 P)) = Some n
            \<and> (n = 1 \<longrightarrow> stack (objs l1 P) \<noteq> [])"
      using Cons.prems(2) P id1 o1 c1 by auto
  qed
  from Cons.IH[OF d1 pre1] obtain l' where
    s2: "updatePredecessors ps l1 = Ok () l'"
    and f2: "l'\<lparr>objs := objs l1, toilState := toilState l1\<rparr> = l1
      \<and> (toilState l')\<lparr>successorCounts := successorCounts (toilState l1),
            updatedJobs := updatedJobs (toilState l1)\<rparr> = toilState l1"
    and id2: "\<forall>a. jobStoreID (objs l' a) = jobStoreID (objs l1 a)"
    and o2: "\<forall>a. a \<notin> set ps \<longrightarrow> objs l' a = objs l1 a"
    and c2: "\<forall>i. i \<notin> (\<lambda>P. jobStoreID (objs l1 P)) ` set ps \<longrightarrow>
          successorCounts (toilState l') i = successorCounts (toilState l1) i"
    and p2: "\<forall>P\<in>set ps. \<forall>n. successorCounts (toilState l1) (jobStoreID (objs l1 P)) = Some n \<longrightarrow>
          (if n = 1
           then successorCounts (toilState l') (jobStoreID (objs l1 P)) = None
              \<and> objs l' P = (objs l1 P)\<lparr>stack := butlast (stack (objs l1 P))\<rparr>
              \<and> (P, 0) \<in> updatedJobs (toilState l')
           else successorCounts (toilState l') (jobStoreID (objs l1 P)) = Some (n - 1)
              \<and> objs l' P = objs l1 P)"
    and u2: "updatedJobs (toilState l') = updatedJobs (toilState l1) \<union>
          {(P, 0) | P. P \<in> set ps \<and> successorCounts (toilState l1) (jobStoreID (objs l1 P)) = Some 1}"
    by blast
  have img: "(\<lambda>P. jobStoreID (objs l1 P)) ` set ps = (\<lambda>P. jobStoreID (objs l P)) ` set ps"
    using id1 by simp
  have cnt_eq: "\<forall>P\<in>set ps. successorCounts (toilState l1) (jobStoreID (objs l1 P))
                  = successorCounts (toilState l) (jobStoreID (objs l P))"
    using id1 c1 idne by auto
  have obj_eq: "\<forall>P\<in>set ps. objs l1 P = objs l P" using o1 pnot by auto
  have R: "updatePredecessors (p # ps) l = Ok () l'" using s1 s2 by simp
  have F: "l'\<lparr>objs := objs l, toilState := toilState l\<rparr> = l
      \<and> (toilState l')\<lparr>successorCounts := successorCounts (toilState l),
            updatedJobs := updatedJobs (toilState l)\<rparr> = toilState l"
  proof -
    have "l'\<lparr>objs := objs l, toilState := toilState l\<rparr>
        = (l'\<lparr>objs := objs l1, toilState := toilState l1\<rparr>)\<lparr>objs := objs l, toilState := toilState l\<rparr>"
      by simp
    also have "\<dots> = l1\<lparr>objs := objs l, toilState := toilState l\<rparr>" using f2 by simp
    also have "\<dots> = l" using f1 by simp
    finally have A: "l'\<lparr>objs := objs l, toilState := toilState l\<rparr> = l" .
    have "(toilState l')\<lparr>successorCounts := successorCounts (toilState l),
              updatedJobs := updatedJobs (toilState l)\<rparr>
        = ((toilState l')\<lparr>successorCounts := successorCounts (toilState l1),
              updatedJobs := updatedJobs (toilState l1)\<rparr>)
             \<lparr>successorCounts := successorCounts (toilState l), updatedJobs := updatedJobs (toilState l)\<rparr>"
      by simp
    also have "\<dots> = (toilState l1)\<lparr>successorCounts := successorCounts (toilState l),
              updatedJobs := updatedJobs (toilState l)\<rparr>"
      using f2 by simp
    also have "\<dots> = toilState l" using f1 by simp
    finally show ?thesis using A by simp
  qed
  have I: "\<forall>a. jobStoreID (objs l' a) = jobStoreID (objs l a)" using id1 id2 by simp
  have O: "\<forall>a. a \<notin> set (p # ps) \<longrightarrow> objs l' a = objs l a" using o1 o2 by simp
  have C: "\<forall>i. i \<notin> (\<lambda>P. jobStoreID (objs l P)) ` set (p # ps) \<longrightarrow>
          successorCounts (toilState l') i = successorCounts (toilState l) i"
    using c1 c2 img by auto
  have cp: "successorCounts (toilState l') (jobStoreID (objs l p))
              = successorCounts (toilState l1) (jobStoreID (objs l p))"
    using c2 img idnot by auto
  have op: "objs l' p = objs l1 p" using o2 pnot by auto
  have U: "updatedJobs (toilState l') = updatedJobs (toilState l) \<union>
          {(P, 0) | P. P \<in> set (p # ps) \<and> successorCounts (toilState l) (jobStoreID (objs l P)) = Some 1}"
  proof -
    have "{(P, 0::int) | P. P \<in> set ps \<and> successorCounts (toilState l1) (jobStoreID (objs l1 P)) = Some 1}
        = {(P, 0) | P. P \<in> set ps \<and> successorCounts (toilState l) (jobStoreID (objs l P)) = Some 1}"
      using cnt_eq by auto
    with u2 p1 n(1) show ?thesis by (auto split: if_splits)
  qed
  have PP: "\<forall>P\<in>set (p # ps). \<forall>n. successorCounts (toilState l) (jobStoreID (objs l P)) = Some n \<longrightarrow>
          (if n = 1
           then successorCounts (toilState l') (jobStoreID (objs l P)) = None
              \<and> objs l' P = (objs l P)\<lparr>stack := butlast (stack (objs l P))\<rparr>
              \<and> (P, 0) \<in> updatedJobs (toilState l')
           else successorCounts (toilState l') (jobStoreID (objs l P)) = Some (n - 1)
              \<and> objs l' P = objs l P)"
  proof
    fix P assume "P \<in> set (p # ps)"
    then consider "P = p" | "P \<in> set ps" by auto
    then show "\<forall>n. successorCounts (toilState l) (jobStoreID (objs l P)) = Some n \<longrightarrow>
          (if n = 1
           then successorCounts (toilState l') (jobStoreID (objs l P)) = None
              \<and> objs l' P = (objs l P)\<lparr>stack := butlast (stack (objs l P))\<rparr>
              \<and> (P, 0) \<in> updatedJobs (toilState l')
           else successorCounts (toilState l') (jobStoreID (objs l P)) = Some (n - 1)
              \<and> objs l' P = objs l P)"
    proof cases
      case 1
      then show ?thesis using p1 n(1) cp op u2 by (auto split: if_splits)
    next
      case 2
      then show ?thesis using p2 cnt_eq obj_eq id1 by (auto split: if_splits)
    qed
  qed
  from R F I O C PP U show ?case by blast
qed

lemma updatePredecessors_Err:
  assumes "distinct (map (\<lambda>P. jobStoreID (objs l P)) ps)"
    and "\<exists>P\<in>set ps. \<not> (\<exists>n. successorCounts (toilState l) (jobStoreID (objs l P)) = Some n
            \<and> (n = 1 \<longrightarrow> stack (objs l P) \<noteq> []))"
  shows "\<exists>e l'. updatePredecessors ps l = Err e l'"
  using assms
proof (induction ps arbitrary: l)
  case Nil
  then show ?case by simp
next
  case (Cons p ps)
  show ?case
  proof (cases "\<exists>n. successorCounts (toilState l) (jobStoreID (objs l p)) = Some n
            \<and> (n = 1 \<longrightarrow> stack (objs l p) \<noteq> [])")
    case False
    from updatePredecessor_Err[OF False] show ?thesis by auto
  next
    case True
    then obtain n where n: "successorCounts (toilState l) (jobStoreID (objs l p)) = Some n"
      "n = 1 \<longrightarrow> stack (objs l p) \<noteq> []" by auto
    from updatePredecessor_step[OF n] obtain l1 where
      s1: "updatePredecessor p l = Ok () l1"
      and id1: "\<forall>a. jobStoreID (objs l1 a) = jobStoreID (objs l a)"
      and o1: "\<forall>a. a \<noteq> p \<longrightarrow> objs l1 a = objs l a"
      and c1: "\<forall>i. i \<noteq> jobStoreID (objs l p) \<longrightarrow>
          successorCounts (toilState l1) i = successorCounts (toilState l) i"
      by blast
    from Cons.prems(2) True obtain Q where Q: "Q \<in> set ps"
      "\<not> (\<exists>n. successorCounts (toilState l) (jobStoreID (objs l Q)) = Some n
            \<and> (n = 1 \<longrightarrow> stack (objs l Q) \<noteq> []))" by auto
    from distinct_ids_head[OF Cons.prems(1) Q(1)]
    have "\<not> (\<exists>n. successorCounts (toilState l1) (jobStoreID (objs l1 Q)) = Some n
            \<and> (n = 1 \<longrightarrow> stack (objs l1 Q) \<noteq> []))"
      using Q(2) id1 o1 c1 by auto
    with Q(1) have bad: "\<exists>P\<in>set ps. \<not> (\<exists>n. successorCounts (toilState l1) (jobStoreID (objs l1 P)) = Some n
            \<and> (n = 1 \<longrightarrow> stack (objs l1 P) \<noteq> []))" by blast
    have d1: "distinct (map (\<lambda>P. jobStoreID (objs l1 P)) ps)"
      using Cons.prems(1) id1 by simp
    from Cons.IH[OF d1 bad] s1 show ?thesis by auto
  qed
qed

text \<open>
  C6. For a finished job \<open>jid\<close> that is not a service and has predecessors (each listed
  once), \<open>updatePredecessorStatus\<close> removes \<open>jid\<close> from the map of successors to
  predecessors and lowers the successor count of every predecessor \<open>P\<close> by one; where
  the count reaches zero the key of \<open>P\<close> is removed from \<open>successorCounts\<close>, the top
  group of the stack of \<open>P\<close> is popped and \<open>(P, 0)\<close> is added to \<open>updatedJobs\<close>. The
  call returns exactly when every predecessor has a count, and a non-empty stack
  where that count is one.
\<close>

theorem updatePredecessorStatus_finished_successor:
  assumes "serviceJobStoreIDToPredecessorJob (toilState l) jid = None"
    and "successorJobStoreIDToPredecessorJobs (toilState l) jid = Some preds"
    and "distinct (map (\<lambda>P. jobStoreID (objs l P)) preds)"
  shows "((\<exists>l'. updatePredecessorStatus jid l = Ok () l') \<longleftrightarrow>
            (\<forall>P\<in>set preds. \<exists>n. successorCounts (toilState l) (jobStoreID (objs l P)) = Some n
                \<and> (n = 1 \<longrightarrow> stack (objs l P) \<noteq> [])))
    \<and> (\<forall>l'. updatePredecessorStatus jid l = Ok () l' \<longrightarrow>
          successorJobStoreIDToPredecessorJobs (toilState l') =
            (successorJobStoreIDToPredecessorJobs (toilState l))(jid := None)
        \<and> (\<forall>P\<in>set preds. \<forall>n. successorCounts (toilState l) (jobStoreID (objs l P)) = Some n \<longrightarrow>
              (if n = 1
               then successorCounts (toilState l') (jobStoreID (objs l P)) = None
                  \<and> objs l' P = (objs l P)\<lparr>stack := butlast (stack (objs l P))\<rparr>
                  \<and> (P, 0) \<in> updatedJobs (toilState l')
               else successorCounts (toilState l') (jobStoreID (objs l P)) = Some (n - 1)
                  \<and> objs l' P = objs l P))
        \<and> (\<forall>i. i \<notin> (\<lambda>P. jobStoreID (objs l P)) ` set preds \<longrightarrow>
              successorCounts (toilState l') i = successorCounts (toilState l) i)
        \<and> (\<forall>a. a \<notin> set preds \<longrightarrow> objs l' a = objs l a)
        \<and> updatedJobs (toilState l') = updatedJobs (toilState l) \<union>
              {(P, 0) | P. P \<in> set preds
                 \<and> successorCounts (toilState l) (jobStoreID (objs l P)) = Some 1})"
proof -
  let ?l0 = "l\<lparr>toilState := (toilState l)\<lparr>successorJobStoreIDToPredecessorJobs :=
                (successorJobStoreIDToPredecessorJobs (toilState l))(jid := None)\<rparr>\<rparr>"
  let ?good = "\<forall>P\<in>set preds. \<exists>n. successorCounts (toilState l) (jobStoreID (objs l P)) = Some n
                \<and> (n = 1 \<longrightarrow> stack (objs l P) \<noteq> [])"
  have unfold: "updatePredecessorStatus jid l = updatePredecessors preds ?l0"
    using assms(1,2) by (simp add: updatePredecessorStatus_def Let_def)
  have d0: "distinct (map (\<lambda>P. jobStoreID (objs ?l0 P)) preds)" using assms(3) by simp
  have iff: "(\<exists>l'. updatePredecessorStatus jid l = Ok () l') \<longleftrightarrow> ?good"
  proof
    assume ok: "\<exists>l'. updatePredecessorStatus jid l = Ok () l'"
    show ?good
    proof (rule ccontr)
      assume "\<not> ?good"
      then have "\<exists>P\<in>set preds. \<not> (\<exists>n. successorCounts (toilState ?l0) (jobStoreID (objs ?l0 P)) = Some n
            \<and> (n = 1 \<longrightarrow> stack (objs ?l0 P) \<noteq> []))" by simp
      from updatePredecessors_Err[OF d0 this] ok unfold show False by auto
    qed
  next
    assume g: ?good
    then have "\<forall>P\<in>set preds. \<exists>n. successorCounts (toilState ?l0) (jobStoreID (objs ?l0 P)) = Some n
            \<and> (n = 1 \<longrightarrow> stack (objs ?l0 P) \<noteq> [])" by simp
    from updatePredecessors_loop[OF d0 this] unfold
    show "\<exists>l'. updatePredecessorStatus jid l = Ok () l'" by auto
  qed
  have post: "\<forall>l'. updatePredecessorStatus jid l = Ok () l' \<longrightarrow>
          successorJobStoreIDToPredecessorJobs (toilState l') =
            (successorJobStoreIDToPredecessorJobs (toilState l))(jid := None)
        \<and> (\<forall>P\<in>set preds. \<forall>n. successorCounts (toilState l) (jobStoreID (objs l P)) = Some n \<longrightarrow>
              (if n = 1
               then successorCounts (toilState l') (jobStoreID (objs l P)) = None
                  \<and> objs l' P = (objs l P)\<lparr>stack := butlast (stack (objs l P))\<rparr>
                  \<and> (P, 0) \<in> updatedJobs (toilState l')
               else successorCounts (toilState l') (jobStoreID (objs l P)) = Some (n - 1)
                  \<and> objs l' P = objs l P))
        \<and> (\<forall>i. i \<notin> (\<lambda>P. jobStoreID (objs l P)) ` set preds \<longrightarrow>
              successorCounts (toilState l') i = successorCounts (toilState l) i)
        \<and> (\<forall>a. a \<notin> set preds \<longrightarrow> objs l' a = objs l a)
        \<and> updatedJobs (toilState l') = updatedJobs (toilState l) \<union>
              {(P, 0) | P. P \<in> set preds
                 \<and> successorCounts (toilState l) (jobStoreID (objs l P)) = Some 1}"
  proof (intro allI impI)
    fix l' assume ok: "updatePredecessorStatus jid l = Ok () l'"
    with iff have g: ?good by blast
    then have g0: "\<forall>P\<in>set preds. \<exists>n. successorCounts (toilState ?l0) (jobStoreID (objs ?l0 P)) = Some n
            \<and> (n = 1 \<longrightarrow> stack (objs ?l0 P) \<noteq> [])" by simp
    from updatePredecessors_loop[OF d0 g0] ok unfold
    have L: "l'\<lparr>objs := objs ?l0, toilState := toilState ?l0\<rparr> = ?l0
      \<and> (toilState l')\<lparr>successorCounts := successorCounts (toilState ?l0),
            updatedJobs := updatedJobs (toilState ?l0)\<rparr> = toilState ?l0
      \<and> (\<forall>a. a \<notin> set preds \<longrightarrow> objs l' a = objs ?l0 a)
      \<and> (\<forall>i. i \<notin> (\<lambda>P. jobStoreID (objs ?l0 P)) ` set preds \<longrightarrow>
          successorCounts (toilState l') i = successorCounts (toilState ?l0) i)
      \<and> (\<forall>P\<in>set preds. \<forall>n. successorCounts (toilState ?l0) (jobStoreID (objs ?l0 P)) = Some n \<longrightarrow>
          (if n = 1
           then successorCounts (toilState l') (jobStoreID (objs ?l0 P)) = None
              \<and> objs l' P = (objs ?l0 P)\<lparr>stack := butlast (stack (objs ?l0 P))\<rparr>
              \<and> (P, 0) \<in> updatedJobs (toilState l')
           else successorCounts (toilState l') (jobStoreID (objs ?l0 P)) = Some (n - 1)
              \<and> objs l' P = objs ?l0 P))
      \<and> updatedJobs (toilState l') = updatedJobs (toilState ?l0) \<union>
          {(P, 0) | P. P \<in> set preds \<and> successorCounts (toilState ?l0) (jobStoreID (objs ?l0 P)) = Some 1}"
      by auto
    from L have "successorJobStoreIDToPredecessorJobs
        ((toilState l')\<lparr>successorCounts := successorCounts (toilState ?l0),
            updatedJobs := updatedJobs (toilState ?l0)\<rparr>) =
          successorJobStoreIDToPredecessorJobs (toilState ?l0)" by simp
    then have S: "successorJobStoreIDToPredecessorJobs (toilState l') =
            (successorJobStoreIDToPredecessorJobs (toilState l))(jid := None)" by simp
    from L S show "successorJobStoreIDToPredecessorJobs (toilState l') =
            (successorJobStoreIDToPredecessorJobs (toilState l))(jid := None)
        \<and> (\<forall>P\<in>set preds. \<forall>n. successorCounts (toilState l) (jobStoreID (objs l P)) = Some n \<longrightarrow>
              (if n = 1
               then successorCounts (toilState l') (jobStoreID (objs l P)) = None
                  \<and> objs l' P = (objs l P)\<lparr>stack := butlast (stack (objs l P))\<rparr>
                  \<and> (P, 0) \<in> updatedJobs (toilState l')
               else successorCounts (toilState l') (jobStoreID (objs l P)) = Some (n - 1)
                  \<and> objs l' P = objs l P))
        \<and> (\<forall>i. i \<notin> (\<lambda>P. jobStoreID (objs l P)) ` set preds \<longrightarrow>
              successorCounts (toilState l') i = successorCounts (toilState l) i)
        \<and> (\<forall>a. a \<notin> set preds \<longrightarrow> objs l' a = objs l a)
        \<and> updatedJobs (toilState l') = updatedJobs (toilState l) \<union>
              {(P, 0) | P. P \<in> set preds
                 \<and> successorCounts (toilState l) (jobStoreID (objs l P)) = Some 1}"
      by (simp cong: if_cong)
  qed
  from iff post show ?thesis by blast
qed

theorem updatePredecessorStatus_finished_successor_witness:
  "serviceJobStoreIDToPredecessorJob (toilState S1_built) ''A'' = None
   \<and> successorJobStoreIDToPredecessorJobs (toilState S1_built) ''A'' = Some [0]
   \<and> distinct (map (\<lambda>P. jobStoreID (objs S1_built P)) [0])
   \<and> successorCounts (toilState S1_built) ''R'' = Some 1
   \<and> returned (updatePredecessorStatus ''A'' S1_built) = Some ()
   \<and> successorJobStoreIDToPredecessorJobs (toilState (stateOf (updatePredecessorStatus ''A'' S1_built)))
       ''A'' = None
   \<and> successorCounts (toilState (stateOf (updatePredecessorStatus ''A'' S1_built))) ''R'' = None
   \<and> stack (objs (stateOf (updatePredecessorStatus ''A'' S1_built)) 0) = []
   \<and> (0, 0) \<in> updatedJobs (toilState (stateOf (updatePredecessorStatus ''A'' S1_built)))"
proof -
  have h1: "serviceJobStoreIDToPredecessorJob (toilState S1_built) ''A'' = None"
    and h2: "successorJobStoreIDToPredecessorJobs (toilState S1_built) ''A'' = Some [0]"
    and h3: "distinct (map (\<lambda>P. jobStoreID (objs S1_built P)) [0])"
    and h4: "successorCounts (toilState S1_built) (jobStoreID (objs S1_built 0)) = Some 1"
    and h5: "stack (objs S1_built 0) = [[(''A'', 1, 1, 1, False, None)]]"
    and h6: "jobStoreID (objs S1_built 0) = ''R''"
    by (simp_all add: S1_defs scenario_defs)
  note T = updatePredecessorStatus_finished_successor[OF h1 h2 h3]
  from T h4 h5 obtain l' where ok: "updatePredecessorStatus ''A'' S1_built = Ok () l'" by auto
  from T ok h4 h5 h6 have
    "successorJobStoreIDToPredecessorJobs (toilState l') ''A'' = None
     \<and> successorCounts (toilState l') ''R'' = None
     \<and> stack (objs l' 0) = []
     \<and> (0, 0) \<in> updatedJobs (toilState l')"
    by auto
  with ok h1 h2 h3 h4 h6 show ?thesis by (simp add: res_defs)
qed

subsection \<open>Leader.getSuccessors\<close>

lemma reached_mono:
  assumes "T \<subseteq> T'" "seen' \<subseteq> seen"
  shows "reached js T seen \<subseteq> reached js T' seen'"
proof
  fix x assume "x \<in> reached js T seen"
  then show "x \<in> reached js T' seen'"
  proof induction
    case (start s)
    then show ?case using assms by (auto intro: reached.start)
  next
    case (below r jw s)
    then show ?case using assms by (auto intro: reached.below)
  qed
qed

lemma reached_below_sub:
  assumes "r \<in> reached js T seen" "js_records js r = Some jw" "seen \<subseteq> seen'"
  shows "reached js (successorIDs jw) seen' \<subseteq> reached js T seen"
proof
  fix x assume "x \<in> reached js (successorIDs jw) seen'"
  then show "x \<in> reached js T seen"
  proof induction
    case (start s)
    then show ?case using assms by (auto intro: reached.below)
  next
    case (below r' jw' s)
    then show ?case using assms by (auto intro: reached.below)
  qed
qed

lemma walked_refl: "T \<subseteq> snd st \<Longrightarrow> walked js T st st"
  by (auto simp: walked_def intro!: exI[of _ "{}"])

lemma walked_trans:
  assumes "walked js T1 st st1" "walked js T2 st1 st2"
  shows "walked js (T1 \<union> T2) st st2"
proof -
  from assms(1) obtain N1 where N1: "st1 = (fst st \<union> N1, snd st \<union> N1)" "N1 \<inter> snd st = {}"
    "T1 \<subseteq> snd st \<union> N1"
    "\<forall>r\<in>N1. \<forall>jw. js_records js r = Some jw \<longrightarrow> successorIDs jw \<subseteq> snd st \<union> N1"
    "N1 \<subseteq> reached js T1 (snd st)" by (auto simp: walked_def)
  from assms(2) obtain N2 where N2: "st2 = (fst st1 \<union> N2, snd st1 \<union> N2)" "N2 \<inter> snd st1 = {}"
    "T2 \<subseteq> snd st1 \<union> N2"
    "\<forall>r\<in>N2. \<forall>jw. js_records js r = Some jw \<longrightarrow> successorIDs jw \<subseteq> snd st1 \<union> N2"
    "N2 \<subseteq> reached js T2 (snd st1)" by (auto simp: walked_def)
  have a: "st2 = (fst st \<union> (N1 \<union> N2), snd st \<union> (N1 \<union> N2))" using N1(1) N2(1) by auto
  have b: "(N1 \<union> N2) \<inter> snd st = {}" using N1(1,2) N2(2) by auto
  have c: "T1 \<union> T2 \<subseteq> snd st \<union> (N1 \<union> N2)" using N1(1,3) N2(3) by auto
  have d: "\<forall>r\<in>N1 \<union> N2. \<forall>jw. js_records js r = Some jw \<longrightarrow> successorIDs jw \<subseteq> snd st \<union> (N1 \<union> N2)"
    using N1(1,4) N2(4) by (auto; blast)
  have "reached js T1 (snd st) \<subseteq> reached js (T1 \<union> T2) (snd st)" by (rule reached_mono) auto
  moreover have "reached js T2 (snd st1) \<subseteq> reached js (T1 \<union> T2) (snd st)"
    using N1(1) by (intro reached_mono) auto
  ultimately have e: "N1 \<union> N2 \<subseteq> reached js (T1 \<union> T2) (snd st)" using N1(5) N2(5) by blast
  from a b c d e show ?thesis unfolding walked_def by blast
qed

lemma visitSuccessor_walked:
  assumes rec: "\<And>jw st st'. recurse jw st = Ok () st' \<Longrightarrow> walked js (successorIDs jw) st st'"
    and ok: "visitSuccessor recurse js t st = Ok () st'"
  shows "walked js {succID t} st st'"
proof (cases "succID t \<in> snd st")
  case True
  then have "st' = st" using ok by (auto simp: visitSuccessor_def Let_def split: prod.splits)
  then show ?thesis using True by (simp add: walked_refl)
next
  case False
  let ?s = "succID t"
  let ?st1 = "(insert ?s (fst st), insert ?s (snd st))"
  show ?thesis
  proof (cases "jobStore_exists js ?s")
    case ex: False
    then have "st' = ?st1" using ok False
      by (auto simp: visitSuccessor_def Let_def split: prod.splits)
    moreover have "js_records js ?s = None" using ex by (auto simp: jobStore_exists_def)
    ultimately show ?thesis using False
      by (auto simp: walked_def intro!: exI[of _ "{?s}"] reached.start)
  next
    case ex: True
    with ok False obtain jw where jw: "js_records js ?s = Some jw" and r: "recurse jw ?st1 = Ok () st'"
      by (auto simp: visitSuccessor_def Let_def jobStore_read_def split: prod.splits option.splits)
    from rec[OF r] obtain N where N: "st' = (fst ?st1 \<union> N, snd ?st1 \<union> N)" "N \<inter> snd ?st1 = {}"
      "successorIDs jw \<subseteq> snd ?st1 \<union> N"
      "\<forall>r\<in>N. \<forall>jw'. js_records js r = Some jw' \<longrightarrow> successorIDs jw' \<subseteq> snd ?st1 \<union> N"
      "N \<subseteq> reached js (successorIDs jw) (snd ?st1)" by (auto simp: walked_def)
    have s_reached: "?s \<in> reached js {?s} (snd st)" using False by (auto intro: reached.start)
    have "reached js (successorIDs jw) (snd ?st1) \<subseteq> reached js {?s} (snd st)"
      by (rule reached_below_sub[OF s_reached jw]) auto
    with N(5) s_reached have e: "insert ?s N \<subseteq> reached js {?s} (snd st)" by auto
    have a: "st' = (fst st \<union> insert ?s N, snd st \<union> insert ?s N)" using N(1) by auto
    have b: "insert ?s N \<inter> snd st = {}" using N(2) False by auto
    have c: "{?s} \<subseteq> snd st \<union> insert ?s N" by auto
    have d: "\<forall>r\<in>insert ?s N. \<forall>jw'. js_records js r = Some jw' \<longrightarrow>
               successorIDs jw' \<subseteq> snd st \<union> insert ?s N"
      using N(3,4) jw by auto
    from a b c d e show ?thesis unfolding walked_def by blast
  qed
qed

lemma visitSuccessorList_walked:
  assumes rec: "\<And>jw st st'. recurse jw st = Ok () st' \<Longrightarrow> walked js (successorIDs jw) st st'"
  shows "visitSuccessorList recurse js ts st = Ok () st' \<Longrightarrow> walked js (succID ` set ts) st st'"
proof (induction ts arbitrary: st)
  case Nil
  then show ?case by (simp add: walked_refl)
next
  case (Cons t ts)
  from Cons.prems obtain st1 where s1: "visitSuccessor recurse js t st = Ok () st1"
    and s2: "visitSuccessorList recurse js ts st1 = Ok () st'"
    by (auto split: res.splits)
  from walked_trans[OF visitSuccessor_walked[OF rec s1] Cons.IH[OF s2]]
  show ?case by simp
qed

lemma visitStack_walked:
  assumes rec: "\<And>jw st st'. recurse jw st = Ok () st' \<Longrightarrow> walked js (successorIDs jw) st st'"
  shows "visitStack recurse js gs st = Ok () st' \<Longrightarrow> walked js (succID ` set (concat gs)) st st'"
proof (induction gs arbitrary: st)
  case Nil
  then show ?case by (simp add: walked_refl)
next
  case (Cons g gs)
  from Cons.prems obtain st1 where s1: "visitSuccessorList recurse js g st = Ok () st1"
    and s2: "visitStack recurse js gs st1 = Ok () st'"
    by (auto split: res.splits)
  from walked_trans[OF visitSuccessorList_walked[OF rec s1] Cons.IH[OF s2]]
  show ?case by (simp add: image_Un)
qed

lemma successorRecursion_walked:
  "successorRecursion depth js jw st = Ok () st' \<Longrightarrow> walked js (successorIDs jw) st st'"
proof (induction depth arbitrary: jw st st')
  case 0
  then show ?case by simp
next
  case (Suc depth)
  from Suc.prems have "visitStack (successorRecursion depth js) js (stack jw) st = Ok () st'" by simp
  from visitStack_walked[OF Suc.IH this] show ?case by (simp add: successorIDs_def)
qed

lemma walked_reached:
  assumes "walked js T (S0, seen) st'"
  shows "st' = (S0 \<union> reached js T seen, seen \<union> reached js T seen)"
proof -
  from assms obtain N where N: "st' = (S0 \<union> N, seen \<union> N)" "N \<inter> seen = {}" "T \<subseteq> seen \<union> N"
    "\<forall>r\<in>N. \<forall>jw. js_records js r = Some jw \<longrightarrow> successorIDs jw \<subseteq> seen \<union> N"
    "N \<subseteq> reached js T seen" by (auto simp: walked_def)
  have "reached js T seen \<subseteq> N"
  proof
    fix x assume "x \<in> reached js T seen"
    then show "x \<in> N"
    proof induction
      case (start s)
      then show ?case using N(3) by auto
    next
      case (below r jw s)
      then show ?case using N(4) by auto
    qed
  qed
  with N(5) have "N = reached js T seen" by auto
  with N(1) show ?thesis by simp
qed


lemma walked_grows: "walked js T st st' \<Longrightarrow> snd st \<subseteq> snd st'"
  by (auto simp: walked_def)

lemma visitSuccessor_returns:
  assumes fin: "finite (dom (js_records js))" and stale: "js_stale js \<subseteq> dom (js_records js)"
    and rec_ok: "\<forall>jw st. card (dom (js_records js) - snd st) < depth \<longrightarrow> (\<exists>st'. recurse jw st = Ok () st')"
    and bound: "card (dom (js_records js) - snd st) \<le> depth"
  shows "\<exists>st'. visitSuccessor recurse js t st = Ok () st'"
proof (cases "succID t \<in> snd st \<or> \<not> jobStore_exists js (succID t)")
  case True
  then show ?thesis by (auto simp: visitSuccessor_def Let_def split: prod.splits)
next
  case False
  let ?s = "succID t"
  let ?st1 = "(insert ?s (fst st), insert ?s (snd st))"
  from False stale have indom: "?s \<in> dom (js_records js)" by (auto simp: jobStore_exists_def)
  then obtain jw where jw: "js_records js ?s = Some jw" by auto
  have "?s \<in> dom (js_records js) - snd st" using indom False by auto
  then have "card (dom (js_records js) - insert ?s (snd st)) < card (dom (js_records js) - snd st)"
    using fin by (intro psubset_card_mono) auto
  with bound have "card (dom (js_records js) - snd ?st1) < depth" by simp
  with rec_ok obtain st' where "recurse jw ?st1 = Ok () st'" by blast
  with False jw show ?thesis
    by (auto simp: visitSuccessor_def Let_def jobStore_read_def split: prod.splits)
qed

lemma card_bound_grows:
  assumes "finite D" "card (D - A) \<le> n" "A \<subseteq> B"
  shows "card (D - B) \<le> n"
proof -
  have "card (D - B) \<le> card (D - A)" using assms(1,3) by (intro card_mono) auto
  with assms(2) show ?thesis by simp
qed

lemma visitSuccessorList_returns:
  assumes fin: "finite (dom (js_records js))" and stale: "js_stale js \<subseteq> dom (js_records js)"
    and rec_ok: "\<forall>jw st. card (dom (js_records js) - snd st) < depth \<longrightarrow> (\<exists>st'. recurse jw st = Ok () st')"
    and rec: "\<And>jw st st'. recurse jw st = Ok () st' \<Longrightarrow> walked js (successorIDs jw) st st'"
  shows "card (dom (js_records js) - snd st) \<le> depth \<Longrightarrow> \<exists>st'. visitSuccessorList recurse js ts st = Ok () st'"
proof (induction ts arbitrary: st)
  case Nil
  then show ?case by simp
next
  case (Cons t ts)
  have "\<exists>st1. visitSuccessor recurse js t st = Ok () st1"
    using fin stale rec_ok Cons.prems by (rule visitSuccessor_returns)
  then obtain st1 where s1: "visitSuccessor recurse js t st = Ok () st1" by blast
  have "walked js {succID t} st st1" using rec s1 by (rule visitSuccessor_walked)
  then have "snd st \<subseteq> snd st1" by (rule walked_grows)
  with fin Cons.prems have "card (dom (js_records js) - snd st1) \<le> depth" by (rule card_bound_grows)
  from Cons.IH[OF this] s1 show ?case by auto
qed

lemma visitStack_returns:
  assumes fin: "finite (dom (js_records js))" and stale: "js_stale js \<subseteq> dom (js_records js)"
    and rec_ok: "\<forall>jw st. card (dom (js_records js) - snd st) < depth \<longrightarrow> (\<exists>st'. recurse jw st = Ok () st')"
    and rec: "\<And>jw st st'. recurse jw st = Ok () st' \<Longrightarrow> walked js (successorIDs jw) st st'"
  shows "card (dom (js_records js) - snd st) \<le> depth \<Longrightarrow> \<exists>st'. visitStack recurse js gs st = Ok () st'"
proof (induction gs arbitrary: st)
  case Nil
  then show ?case by simp
next
  case (Cons g gs)
  have "\<exists>st1. visitSuccessorList recurse js g st = Ok () st1"
    using fin stale rec_ok rec Cons.prems by (rule visitSuccessorList_returns)
  then obtain st1 where s1: "visitSuccessorList recurse js g st = Ok () st1" by blast
  have "walked js (succID ` set g) st st1" using rec s1 by (rule visitSuccessorList_walked)
  then have "snd st \<subseteq> snd st1" by (rule walked_grows)
  with fin Cons.prems have "card (dom (js_records js) - snd st1) \<le> depth" by (rule card_bound_grows)
  from Cons.IH[OF this] s1 show ?case by auto
qed

lemma successorRecursion_returns:
  assumes fin: "finite (dom (js_records js))" and stale: "js_stale js \<subseteq> dom (js_records js)"
  shows "card (dom (js_records js) - snd st) < depth \<Longrightarrow> \<exists>st'. successorRecursion depth js jw st = Ok () st'"
proof (induction depth arbitrary: jw st)
  case 0
  then show ?case by simp
next
  case (Suc depth)
  from Suc.prems have b: "card (dom (js_records js) - snd st) \<le> depth" by simp
  have ih: "\<forall>jw st. card (dom (js_records js) - snd st) < depth \<longrightarrow>
              (\<exists>st'. successorRecursion depth js jw st = Ok () st')"
    using Suc.IH by blast
  have "\<exists>st'. visitStack (successorRecursion depth js) js (stack jw) st = Ok () st'"
    using fin stale ih successorRecursion_walked b by (rule visitStack_returns)
  then show ?case by simp
qed

text \<open>
  C8. \<open>getSuccessors J alreadySeen jobStore\<close> walks every successor group of the stack
  of \<open>J\<close>; when it returns, the set it returns is exactly the set of descendants
  reached that were not in \<open>alreadySeen\<close>, every returned ID has been added to
  \<open>alreadySeen\<close>, and the walk goes below a successor only through its record in the
  job store. With a finite job store without stale listings it returns as soon as the
  recursion depth allowed exceeds the number of stored jobs not yet seen.
\<close>

theorem getSuccessors_reached:
  "(\<forall>successors seen'. getSuccessors depth J alreadySeen js = Ok successors seen' \<longrightarrow>
       successors = reached js (successorIDs J) alreadySeen
     \<and> seen' = alreadySeen \<union> successors
     \<and> successors \<inter> alreadySeen = {})
   \<and> (finite (dom (js_records js)) \<and> js_stale js \<subseteq> dom (js_records js)
        \<and> card (dom (js_records js) - alreadySeen) < depth \<longrightarrow>
       getSuccessors depth J alreadySeen js =
         Ok (reached js (successorIDs J) alreadySeen)
            (alreadySeen \<union> reached js (successorIDs J) alreadySeen))"
proof -
  have notseen: "reached js (successorIDs J) alreadySeen \<inter> alreadySeen = {}"
  proof -
    have "\<And>x. x \<in> reached js (successorIDs J) alreadySeen \<Longrightarrow> x \<notin> alreadySeen"
      by (erule reached.cases) auto
    then show ?thesis by auto
  qed
  have pc: "st' = (reached js (successorIDs J) alreadySeen, alreadySeen \<union> reached js (successorIDs J) alreadySeen)"
    if "successorRecursion depth js J ({}, alreadySeen) = Ok () st'" for st'
  proof -
    from that have "walked js (successorIDs J) ({}, alreadySeen) st'" by (rule successorRecursion_walked)
    from walked_reached[OF this] show ?thesis by simp
  qed
  have A: "\<forall>successors seen'. getSuccessors depth J alreadySeen js = Ok successors seen' \<longrightarrow>
       successors = reached js (successorIDs J) alreadySeen
     \<and> seen' = alreadySeen \<union> successors
     \<and> successors \<inter> alreadySeen = {}"
  proof (intro allI impI)
    fix successors seen' assume "getSuccessors depth J alreadySeen js = Ok successors seen'"
    then have "successorRecursion depth js J ({}, alreadySeen) = Ok () (successors, seen')"
      by (auto simp: getSuccessors_def split: res.splits prod.splits)
    from pc[OF this] notseen
    show "successors = reached js (successorIDs J) alreadySeen
     \<and> seen' = alreadySeen \<union> successors
     \<and> successors \<inter> alreadySeen = {}" by auto
  qed
  have B: "finite (dom (js_records js)) \<and> js_stale js \<subseteq> dom (js_records js)
        \<and> card (dom (js_records js) - alreadySeen) < depth \<longrightarrow>
       getSuccessors depth J alreadySeen js =
         Ok (reached js (successorIDs J) alreadySeen)
            (alreadySeen \<union> reached js (successorIDs J) alreadySeen)"
  proof (intro impI, elim conjE)
    assume fin: "finite (dom (js_records js))" and stale: "js_stale js \<subseteq> dom (js_records js)"
      and d: "card (dom (js_records js) - alreadySeen) < depth"
    have "\<exists>st'. successorRecursion depth js J ({}, alreadySeen) = Ok () st'"
      using fin stale by (rule successorRecursion_returns) (use d in simp)
    then obtain st' where ok: "successorRecursion depth js J ({}, alreadySeen) = Ok () st'" by auto
    from pc[OF ok] ok show "getSuccessors depth J alreadySeen js =
         Ok (reached js (successorIDs J) alreadySeen)
            (alreadySeen \<union> reached js (successorIDs J) alreadySeen)"
      by (simp add: getSuccessors_def)
  qed
  from A B show ?thesis by blast
qed

theorem getSuccessors_reached_witness:
  "getSuccessors 3 S3_R {''C''} S3_store = Ok {''A'', ''B''} {''A'', ''B'', ''C''}
   \<and> reached S3_store (successorIDs S3_R) {''C''} = {''A'', ''B''}
   \<and> successorIDs S3_R = {''A''}
   \<and> successorIDs S3_A = {''B'', ''C''}"
proof -
  have e: "getSuccessors 3 S3_R {''C''} S3_store = Ok {''A'', ''B''} {''A'', ''B'', ''C''}"
    by (simp add: getSuccessors_def visitSuccessor_def jobStore_exists_def jobStore_read_def
          S3_defs scenario_defs succID_def Let_def eval_nat_numeral insert_commute)
  from getSuccessors_reached[of 3 S3_R "{''C''}" S3_store] e
  have "reached S3_store (successorIDs S3_R) {''C''} = {''A'', ''B''}" by auto
  moreover have "successorIDs S3_R = {''A''}" "successorIDs S3_A = {''B'', ''C''}"
    by (auto simp: successorIDs_def S3_defs scenario_defs succID_def)
  ultimately show ?thesis using e by simp
qed

subsection \<open>Leader.reissueMissingJobs\<close>

lemma rescueFrame_refl [simp]: "rescueFrame l l"
  by (simp add: rescueFrame_def)

lemma rescueFrame_trans: "rescueFrame l l1 \<Longrightarrow> rescueFrame l1 l2 \<Longrightarrow> rescueFrame l l2"
  by (simp add: rescueFrame_def)

lemma updatePredecessor_frame: "rescueFrame l (stateOf (updatePredecessor P l))"
  by (auto simp: updatePredecessor_def Let_def rescueFrame_def stateOf_def split: option.splits)

lemma updatePredecessors_frame: "rescueFrame l (stateOf (updatePredecessors ps l))"
proof (induction ps arbitrary: l)
  case Nil
  then show ?case by (simp add: stateOf_def)
next
  case (Cons p ps)
  show ?case
  proof (cases "updatePredecessor p l")
    case (Ok u l1)
    with updatePredecessor_frame[of l p] have "rescueFrame l l1" by (simp add: stateOf_def)
    from rescueFrame_trans[OF this Cons.IH[of l1]] Ok show ?thesis by simp
  next
    case (Err e l1)
    with updatePredecessor_frame[of l p] show ?thesis by (simp add: stateOf_def)
  qed
qed

lemma updatePredecessorStatus_frame: "rescueFrame l (stateOf (updatePredecessorStatus jid l))"
proof -
  have "\<And>preds l0. rescueFrame l l0 \<Longrightarrow> rescueFrame l (stateOf (updatePredecessors preds l0))"
    using updatePredecessors_frame rescueFrame_trans by blast
  then show ?thesis
    by (auto simp: updatePredecessorStatus_def Let_def stateOf_def rescueFrame_def
          split: option.splits res.splits)
qed

lemma removeJobID_frame: "rescueFrame l (stateOf (removeJobID b l))"
  by (auto simp: removeJobID_def Let_def rescueFrame_def stateOf_def split: option.splits)

lemma jobStore_load_frame: "rescueFrame l (stateOf (jobStore_load i l))"
  by (auto simp: jobStore_load_def rescueFrame_def stateOf_def split: option.splits)

lemma processFinishedJob_frame: "rescueFrame l (stateOf (processFinishedJob b r w l))"
proof -
  let ?sc = "(if w \<noteq> None \<and> hasClusterScaler l then
              (case jobBatchSystemIDToIssuedJob l b of
                 None \<Rightarrow> Err KeyError l
               | Some ij \<Rightarrow> Ok () (l\<lparr>scalerCompleted := scalerCompleted l @ [(ij, the w)]\<rparr>))
            else Ok () l)"
  have f0: "rescueFrame l (stateOf ?sc)"
    by (auto simp: rescueFrame_def stateOf_def split: option.splits)
  show ?thesis
  proof (cases ?sc)
    case (Err e l0)
    then have "processFinishedJob b r w l = Err e l0" by (simp add: processFinishedJob_def)
    with f0 Err show ?thesis by (simp add: stateOf_def)
  next
    case (Ok u l0)
    with f0 have F0: "rescueFrame l l0" by (simp add: stateOf_def)
    show ?thesis
    proof (cases "removeJobID b l0")
      case (Err e l1)
      with Ok have "processFinishedJob b r w l = Err e l1" by (simp add: processFinishedJob_def)
      moreover from removeJobID_frame[of l0 b] Err have "rescueFrame l0 l1" by (simp add: stateOf_def)
      ultimately show ?thesis using F0 by (simp add: stateOf_def rescueFrame_def)
    next
      case R: (Ok jid l1)
      from removeJobID_frame[of l0 b] R have "rescueFrame l0 l1" by (simp add: stateOf_def)
      with F0 have F1: "rescueFrame l l1" by (rule rescueFrame_trans)
      have U: "\<And>l2. rescueFrame l1 l2 \<Longrightarrow> rescueFrame l (stateOf (updatePredecessorStatus jid l2))"
        using updatePredecessorStatus_frame rescueFrame_trans F1 by blast
      show ?thesis
      proof (cases "jobStore_exists (jobStore l1) jid")
        case False
        with Ok R have "processFinishedJob b r w l = updatePredecessorStatus jid l1"
          by (simp add: processFinishedJob_def processRemovedJob_def)
        with U[of l1] show ?thesis by simp
      next
        case True
        show ?thesis
        proof (cases "jobStore_load jid l1")
          case L: (Err e l2)
          from jobStore_load_frame[of l1 jid] L have F2: "rescueFrame l1 l2" by (simp add: stateOf_def)
          from Ok R True L have "processFinishedJob b r w l =
             (if e = NoSuchJobException then
                   (if js_className (jobStore l2) = ''AWSJobStore'' then updatePredecessorStatus jid l2
                    else Err e l2)
                 else Err e l2)"
            by (simp add: processFinishedJob_def processRemovedJob_def)
          with U[OF F2] F2 F1 show ?thesis by (auto simp: stateOf_def rescueFrame_def)
        next
          case L: (Ok a l2)
          from jobStore_load_frame[of l1 jid] L have F2: "rescueFrame l1 l2" by (simp add: stateOf_def)
          from Ok R True L have "\<exists>l3. processFinishedJob b r w l = Ok () l3 \<and> rescueFrame l2 l3"
            by (simp add: processFinishedJob_def Let_def rescueFrame_def)
          with F2 F1 show ?thesis by (auto simp: stateOf_def rescueFrame_def)
        qed
      qed
    qed
  qed
qed

lemma processKilledJobs_frame: "rescueFrame l (stateOf (processKilledJobs bs l))"
proof (induction bs arbitrary: l)
  case Nil
  then show ?case by (simp add: stateOf_def)
next
  case (Cons b bs)
  show ?case
  proof (cases "processFinishedJob b 1 None l")
    case (Ok u l1)
    with processFinishedJob_frame[of l b 1 None] have "rescueFrame l l1" by (simp add: stateOf_def)
    from rescueFrame_trans[OF this Cons.IH[of l1]] Ok show ?thesis by simp
  next
    case (Err e l1)
    with processFinishedJob_frame[of l b 1 None] show ?thesis by (simp add: stateOf_def)
  qed
qed


lemma countMissingJobs_spec:
  assumes "distinct bs" and "countMissingJobs N bs (h, ks) = (h', ks')"
  shows "(\<forall>b. b \<notin> set bs \<longrightarrow> h' b = h b)
    \<and> (\<forall>b\<in>set bs. if timesMissing h b = N then h' b = None else h' b = Some (timesMissing h b))
    \<and> (\<exists>new. ks' = ks @ new \<and> set new = {b \<in> set bs. timesMissing h b = N})"
  using assms
proof (induction bs arbitrary: h ks)
  case Nil
  then show ?case by simp
next
  case (Cons a bs)
  let ?h1 = "if timesMissing h a = N then h(a := None) else h(a \<mapsto> timesMissing h a)"
  let ?k1 = "if timesMissing h a = N then ks @ [a] else ks"
  from Cons.prems(2) have r: "countMissingJobs N bs (?h1, ?k1) = (h', ks')"
    by (simp add: timesMissing_def Let_def split: if_splits)
  from Cons.prems(1) have d: "distinct bs" and na: "a \<notin> set bs" by auto
  from Cons.IH[OF d r] have
    i1: "\<forall>b. b \<notin> set bs \<longrightarrow> h' b = ?h1 b"
    and i2: "\<forall>b\<in>set bs. if timesMissing ?h1 b = N then h' b = None else h' b = Some (timesMissing ?h1 b)"
    and i3: "\<exists>new. ks' = ?k1 @ new \<and> set new = {b \<in> set bs. timesMissing ?h1 b = N}"
    by blast+
  have tm: "\<forall>b\<in>set bs. timesMissing ?h1 b = timesMissing h b"
    using na by (auto simp: timesMissing_def)
  have c1: "\<forall>b. b \<notin> set (a # bs) \<longrightarrow> h' b = h b" using i1 by auto
  have c2: "\<forall>b\<in>set (a # bs). if timesMissing h b = N then h' b = None else h' b = Some (timesMissing h b)"
    using i1 i2 tm na by auto
  from i3 obtain new where new: "ks' = ?k1 @ new" "set new = {b \<in> set bs. timesMissing ?h1 b = N}"
    by blast
  have "set new = {b \<in> set bs. timesMissing h b = N}" using new(2) tm by auto
  then have c3: "\<exists>new'. ks' = ks @ new' \<and> set new' = {b \<in> set (a # bs). timesMissing h b = N}"
    using new(1) by (cases "timesMissing h a = N") auto
  from c1 c2 c3 show ?case by blast
qed

lemma reissueMissingJobs_scan:
  assumes A1: "set (bs_issued (batchSystem l)) \<subseteq> dom (jobBatchSystemIDToIssuedJob l)"
    and A2: "set (order (missingJobs l)) = missingJobs l" "distinct (order (missingJobs l))"
  shows "\<exists>h' ks.
      countMissingJobs N (order (missingJobs l))
         (reissueMissingJobs_missingHash l |` dom (jobBatchSystemIDToIssuedJob l), []) = (h', ks)
    \<and> set ks = {b \<in> missingJobs l. timesMissing (reissueMissingJobs_missingHash l) b = N}
    \<and> (\<forall>b\<in>missingJobs l. if timesMissing (reissueMissingJobs_missingHash l) b = N then h' b = None
           else h' b = Some (timesMissing (reissueMissingJobs_missingHash l) b))
    \<and> (\<forall>b. b \<in> dom (jobBatchSystemIDToIssuedJob l) \<and> b \<in> set (bs_issued (batchSystem l))
           \<longrightarrow> h' b = reissueMissingJobs_missingHash l b)
    \<and> (\<forall>b. b \<notin> dom (jobBatchSystemIDToIssuedJob l) \<longrightarrow> h' b = None)
    \<and> stateOf (reissueMissingJobs order N l) =
        stateOf (processKilledJobs ks
          (l\<lparr>reissueMissingJobs_missingHash := h',
             batchSystem := killBatchJobs ks (batchSystem l)\<rparr>))
    \<and> reissueMissingJobs_missingHash (stateOf (reissueMissingJobs order N l)) = h'
    \<and> bs_killed (batchSystem (stateOf (reissueMissingJobs order N l))) = bs_killed (batchSystem l) @ ks
    \<and> (\<forall>v. returned (reissueMissingJobs order N l) = Some v \<longrightarrow> (v \<longleftrightarrow> h' = Map.empty))"
proof -
  let ?T = "dom (jobBatchSystemIDToIssuedJob l)"
  let ?h0 = "reissueMissingJobs_missingHash l |` ?T"
  obtain h' ks where c: "countMissingJobs N (order (missingJobs l)) (?h0, []) = (h', ks)"
    by (cases "countMissingJobs N (order (missingJobs l)) (?h0, [])") auto
  from countMissingJobs_spec[OF A2(2) c] A2(1) have
    s1: "\<forall>b. b \<notin> missingJobs l \<longrightarrow> h' b = ?h0 b"
    and s2: "\<forall>b\<in>missingJobs l. if timesMissing ?h0 b = N then h' b = None else h' b = Some (timesMissing ?h0 b)"
    and s3: "set ks = {b \<in> missingJobs l. timesMissing ?h0 b = N}"
    by auto
  have tm: "\<forall>b\<in>missingJobs l. timesMissing ?h0 b = timesMissing (reissueMissingJobs_missingHash l) b"
    by (auto simp: timesMissing_def missingJobs_def)
  have p1: "set ks = {b \<in> missingJobs l. timesMissing (reissueMissingJobs_missingHash l) b = N}"
    using s3 tm by auto
  have p2: "\<forall>b\<in>missingJobs l. if timesMissing (reissueMissingJobs_missingHash l) b = N then h' b = None
           else h' b = Some (timesMissing (reissueMissingJobs_missingHash l) b)"
    using s2 tm by auto
  have p3: "\<forall>b. b \<in> ?T \<and> b \<in> set (bs_issued (batchSystem l)) \<longrightarrow> h' b = reissueMissingJobs_missingHash l b"
    using s1 by (auto simp: missingJobs_def)
  have p4: "\<forall>b. b \<notin> ?T \<longrightarrow> h' b = None"
    using s1 by (auto simp: missingJobs_def restrict_map_def)
  let ?lk = "l\<lparr>reissueMissingJobs_missingHash := h', batchSystem := killBatchJobs ks (batchSystem l)\<rparr>"
  let ?l1 = "l\<lparr>reissueMissingJobs_missingHash := h'\<rparr>"
  have kb: "ks = [] \<Longrightarrow> killBatchJobs ks (batchSystem l) = batchSystem l"
    by (simp add: killBatchJobs_def)
  have kj: "killJobs ks ?l1 = processKilledJobs ks ?lk"
    using kb by (cases ks) (simp_all add: killJobs_def)
  have R: "reissueMissingJobs order N l =
     (case processKilledJobs ks ?lk of
        Err e l2 \<Rightarrow> Err e l2
      | Ok u l2 \<Rightarrow> Ok (reissueMissingJobs_missingHash l2 = Map.empty) l2)"
    using A1 c kj by (simp add: reissueMissingJobs_def Let_def missingJobs_def)
  have p5: "stateOf (reissueMissingJobs order N l) = stateOf (processKilledJobs ks ?lk)"
    unfolding R by (simp add: stateOf_def split: res.splits)
  from processKilledJobs_frame[of ?lk ks] have fr:
    "reissueMissingJobs_missingHash (stateOf (processKilledJobs ks ?lk)) = h'"
    "batchSystem (stateOf (processKilledJobs ks ?lk)) = killBatchJobs ks (batchSystem l)"
    by (simp_all add: rescueFrame_def)
  have p6: "reissueMissingJobs_missingHash (stateOf (reissueMissingJobs order N l)) = h'"
    using p5 fr by simp
  have p7: "bs_killed (batchSystem (stateOf (reissueMissingJobs order N l))) = bs_killed (batchSystem l) @ ks"
    using p5 fr by (simp add: killBatchJobs_def)
  have p8: "\<forall>v. returned (reissueMissingJobs order N l) = Some v \<longrightarrow> (v \<longleftrightarrow> h' = Map.empty)"
  proof (intro allI impI)
    fix v assume "returned (reissueMissingJobs order N l) = Some v"
    then obtain l2 where ok: "processKilledJobs ks ?lk = Ok () l2"
      and v: "v = (reissueMissingJobs_missingHash l2 = Map.empty)"
      unfolding R by (auto simp: returned_def split: res.splits)
    from fr(1) ok have "reissueMissingJobs_missingHash l2 = h'" by (simp add: stateOf_def)
    with v show "v \<longleftrightarrow> h' = Map.empty" by simp
  qed
  from c p1 p2 p3 p4 p5 p6 p7 p8 show ?thesis by blast
qed


lemmas S6_defs = S6_J_def S6_issued_def S6_lost_def S6_reappeared_def
lemma S6_lost_facts:
  "jobBatchSystemIDToIssuedJob S6_lost = [0 \<mapsto> \<lparr>ij_jobStoreID = ''J'', ij_memory = 1, ij_cores = 1, ij_disk = 1, ij_preemptable = False\<rparr>]"
  "bs_issued (batchSystem S6_lost) = []"
  "reissueMissingJobs_missingHash S6_lost = Map.empty"
  "missingJobs S6_lost = {0}"
  by (simp_all add: S6_defs scenario_defs issueJob_def Let_def missingJobs_def)



lemmas rescue_eval = reissueMissingJobs_def killJobs_def killBatchJobs_def processFinishedJob_def
  removeJobID_def jobStore_exists_def jobStore_load_def setupJobAfterFailure_def jobStore_store_def
  Let_def stateOf_def returned_def

lemma S6_cycle1: "S6_cycle 1 = S6_lost\<lparr>reissueMissingJobs_missingHash := [0 \<mapsto> 1]\<rparr>"
  using S6_lost_facts(1,2,3)
  by (simp add: rescue_eval restrict_map_insert)

lemma S6_cycle2: "S6_cycle 2 = S6_lost\<lparr>reissueMissingJobs_missingHash := [0 \<mapsto> 2]\<rparr>"
  using S6_lost_facts(1,2,3) S6_cycle1
  by (simp add: rescue_eval restrict_map_insert eval_nat_numeral)


lemma S6_cycle3:
  "bs_killed (batchSystem (S6_cycle 3)) = [0]"
  "reissueMissingJobs_missingHash (S6_cycle 3) = Map.empty"
  "jobBatchSystemIDToIssuedJob (S6_cycle 3) = Map.empty"
  "updatedJobs (toilState (S6_cycle 3)) = {(1, 1)}"
  "remainingRetryCount (objs (S6_cycle 3) 1) = 0"
  "returned (reissueMissingJobs sorted_list_of_set 3 (S6_cycle 2)) = Some True"
  using S6_lost_facts(1,2,3) S6_cycle2
  by (simp_all add: rescue_eval restrict_map_insert eval_nat_numeral S6_defs scenario_defs issueJob_def)

lemma S6_reappeared_eval:
  "returned (reissueMissingJobs sorted_list_of_set 3 S6_reappeared) = Some False"
  "reissueMissingJobs_missingHash (stateOf (reissueMissingJobs sorted_list_of_set 3 S6_reappeared)) 0 = Some 1"
  using S6_lost_facts(1,2,3) S6_cycle1
  by (simp_all add: rescue_eval restrict_map_insert S6_reappeared_def)


text \<open>
  The rescue of a job that stays missing. Let \<open>reissueMissingJobs\<close> get past its
  assertion. A tracked job the batch system does not list is counted; in the
  invocation at which its count reaches \<open>killAfterNTimesMissing\<close> its entry is removed
  and it is passed to \<open>batchSystem.killBatchJobs\<close>; otherwise its count is stored. The
  entry of a job the Leader no longer tracks is removed. The call returns true
  exactly when the hash is empty afterwards. Over consecutive invocations in which a
  job stays tracked and missing and nothing else touches the hash, a job whose next
  count is \<open>N - j\<close> is killed in the invocation number \<open>j\<close> (counting from zero) and
  not before.
\<close>

lemma reissueMissingJobs_rescue:
  "(rescuePre order l \<longrightarrow>
      (\<forall>b\<in>missingJobs l.
          (timesMissing (reissueMissingJobs_missingHash l) b = N \<longrightarrow>
              reissueMissingJobs_missingHash (stateOf (reissueMissingJobs order N l)) b = None
            \<and> (\<exists>ks. b \<in> set ks
                 \<and> bs_killed (batchSystem (stateOf (reissueMissingJobs order N l)))
                     = bs_killed (batchSystem l) @ ks
                 \<and> stateOf (reissueMissingJobs order N l) =
                     stateOf (processKilledJobs ks
                       (l\<lparr>reissueMissingJobs_missingHash :=
                            reissueMissingJobs_missingHash (stateOf (reissueMissingJobs order N l)),
                          batchSystem := killBatchJobs ks (batchSystem l)\<rparr>))))
        \<and> (timesMissing (reissueMissingJobs_missingHash l) b \<noteq> N \<longrightarrow>
              reissueMissingJobs_missingHash (stateOf (reissueMissingJobs order N l)) b
                = Some (timesMissing (reissueMissingJobs_missingHash l) b)))
    \<and> (\<forall>b. b \<in> dom (jobBatchSystemIDToIssuedJob l) \<and> b \<in> set (bs_issued (batchSystem l)) \<longrightarrow>
          reissueMissingJobs_missingHash (stateOf (reissueMissingJobs order N l)) b
            = reissueMissingJobs_missingHash l b)
    \<and> (\<forall>b. b \<notin> dom (jobBatchSystemIDToIssuedJob l) \<longrightarrow>
          reissueMissingJobs_missingHash (stateOf (reissueMissingJobs order N l)) b = None)
    \<and> (\<forall>v. returned (reissueMissingJobs order N l) = Some v \<longrightarrow>
          (v \<longleftrightarrow> reissueMissingJobs_missingHash (stateOf (reissueMissingJobs order N l)) = Map.empty)))
   \<and> ((\<forall>i\<le>j. rescuePre order (ls i) \<and> c \<in> missingJobs (ls i))
        \<and> timesMissing (reissueMissingJobs_missingHash (ls 0)) c = N - int j
        \<and> (\<forall>i<j. reissueMissingJobs_missingHash (ls (Suc i))
                    = reissueMissingJobs_missingHash (stateOf (reissueMissingJobs order N (ls i))))
       \<longrightarrow> (\<exists>ks. c \<in> set ks
              \<and> bs_killed (batchSystem (stateOf (reissueMissingJobs order N (ls j))))
                  = bs_killed (batchSystem (ls j)) @ ks)
          \<and> (\<forall>i<j. reissueMissingJobs_missingHash (ls (Suc i)) c = Some (N - int j + int i)))"
proof -
  have one: "(\<forall>b\<in>missingJobs l.
          (timesMissing (reissueMissingJobs_missingHash l) b = N \<longrightarrow>
              reissueMissingJobs_missingHash (stateOf (reissueMissingJobs order N l)) b = None
            \<and> (\<exists>ks. b \<in> set ks
                 \<and> bs_killed (batchSystem (stateOf (reissueMissingJobs order N l)))
                     = bs_killed (batchSystem l) @ ks
                 \<and> stateOf (reissueMissingJobs order N l) =
                     stateOf (processKilledJobs ks
                       (l\<lparr>reissueMissingJobs_missingHash :=
                            reissueMissingJobs_missingHash (stateOf (reissueMissingJobs order N l)),
                          batchSystem := killBatchJobs ks (batchSystem l)\<rparr>))))
        \<and> (timesMissing (reissueMissingJobs_missingHash l) b \<noteq> N \<longrightarrow>
              reissueMissingJobs_missingHash (stateOf (reissueMissingJobs order N l)) b
                = Some (timesMissing (reissueMissingJobs_missingHash l) b)))
    \<and> (\<forall>b. b \<in> dom (jobBatchSystemIDToIssuedJob l) \<and> b \<in> set (bs_issued (batchSystem l)) \<longrightarrow>
          reissueMissingJobs_missingHash (stateOf (reissueMissingJobs order N l)) b
            = reissueMissingJobs_missingHash l b)
    \<and> (\<forall>b. b \<notin> dom (jobBatchSystemIDToIssuedJob l) \<longrightarrow>
          reissueMissingJobs_missingHash (stateOf (reissueMissingJobs order N l)) b = None)
    \<and> (\<forall>v. returned (reissueMissingJobs order N l) = Some v \<longrightarrow>
          (v \<longleftrightarrow> reissueMissingJobs_missingHash (stateOf (reissueMissingJobs order N l)) = Map.empty))"
    if pre: "rescuePre order l" for l
  proof -
    from pre have A1: "set (bs_issued (batchSystem l)) \<subseteq> dom (jobBatchSystemIDToIssuedJob l)"
      and A2: "set (order (missingJobs l)) = missingJobs l" "distinct (order (missingJobs l))"
      by (simp_all add: rescuePre_def)
    from reissueMissingJobs_scan[where order=order and l=l and N=N, OF A1 A2] obtain h' ks where
      p1: "set ks = {b \<in> missingJobs l. timesMissing (reissueMissingJobs_missingHash l) b = N}"
      and p2: "\<forall>b\<in>missingJobs l. if timesMissing (reissueMissingJobs_missingHash l) b = N then h' b = None
           else h' b = Some (timesMissing (reissueMissingJobs_missingHash l) b)"
      and p3: "\<forall>b. b \<in> dom (jobBatchSystemIDToIssuedJob l) \<and> b \<in> set (bs_issued (batchSystem l))
           \<longrightarrow> h' b = reissueMissingJobs_missingHash l b"
      and p4: "\<forall>b. b \<notin> dom (jobBatchSystemIDToIssuedJob l) \<longrightarrow> h' b = None"
      and p5: "stateOf (reissueMissingJobs order N l) =
        stateOf (processKilledJobs ks
          (l\<lparr>reissueMissingJobs_missingHash := h',
             batchSystem := killBatchJobs ks (batchSystem l)\<rparr>))"
      and p6: "reissueMissingJobs_missingHash (stateOf (reissueMissingJobs order N l)) = h'"
      and p7: "bs_killed (batchSystem (stateOf (reissueMissingJobs order N l))) = bs_killed (batchSystem l) @ ks"
      and p8: "\<forall>v. returned (reissueMissingJobs order N l) = Some v \<longrightarrow> (v \<longleftrightarrow> h' = Map.empty)"
      by blast
    have k: "\<forall>b\<in>missingJobs l. timesMissing (reissueMissingJobs_missingHash l) b = N \<longrightarrow>
        (\<exists>ks. b \<in> set ks
                 \<and> bs_killed (batchSystem (stateOf (reissueMissingJobs order N l)))
                     = bs_killed (batchSystem l) @ ks
                 \<and> stateOf (reissueMissingJobs order N l) =
                     stateOf (processKilledJobs ks
                       (l\<lparr>reissueMissingJobs_missingHash :=
                            reissueMissingJobs_missingHash (stateOf (reissueMissingJobs order N l)),
                          batchSystem := killBatchJobs ks (batchSystem l)\<rparr>)))"
    proof (intro ballI impI)
      fix b assume "b \<in> missingJobs l" "timesMissing (reissueMissingJobs_missingHash l) b = N"
      with p1 have "b \<in> set ks" by simp
      with p7 p5 p6 show "\<exists>ks. b \<in> set ks
                 \<and> bs_killed (batchSystem (stateOf (reissueMissingJobs order N l)))
                     = bs_killed (batchSystem l) @ ks
                 \<and> stateOf (reissueMissingJobs order N l) =
                     stateOf (processKilledJobs ks
                       (l\<lparr>reissueMissingJobs_missingHash :=
                            reissueMissingJobs_missingHash (stateOf (reissueMissingJobs order N l)),
                          batchSystem := killBatchJobs ks (batchSystem l)\<rparr>))"
        by (intro exI[of _ ks]) simp
    qed
    from k p2 p3 p4 p8 show ?thesis unfolding p6 by (simp split: if_splits)
  qed
  have many: "(\<exists>ks. c \<in> set ks
              \<and> bs_killed (batchSystem (stateOf (reissueMissingJobs order N (ls j))))
                  = bs_killed (batchSystem (ls j)) @ ks)
          \<and> (\<forall>i<j. reissueMissingJobs_missingHash (ls (Suc i)) c = Some (N - int j + int i))"
    if H: "\<forall>i\<le>j. rescuePre order (ls i) \<and> c \<in> missingJobs (ls i)"
      and T0: "timesMissing (reissueMissingJobs_missingHash (ls 0)) c = N - int j"
      and CH: "\<forall>i<j. reissueMissingJobs_missingHash (ls (Suc i))
                    = reissueMissingJobs_missingHash (stateOf (reissueMissingJobs order N (ls i)))"
  proof -
    have tm: "i \<le> j \<Longrightarrow> timesMissing (reissueMissingJobs_missingHash (ls i)) c = N - int j + int i" for i
    proof (induction i)
      case 0
      then show ?case using T0 by simp
    next
      case (Suc i)
      then have ij: "i < j" and t: "timesMissing (reissueMissingJobs_missingHash (ls i)) c = N - int j + int i"
        by simp_all
      from H ij have pre: "rescuePre order (ls i)" and m: "c \<in> missingJobs (ls i)" by simp_all
      from t ij have ne: "timesMissing (reissueMissingJobs_missingHash (ls i)) c \<noteq> N" by simp
      from one[OF pre] m ne have
        "reissueMissingJobs_missingHash (stateOf (reissueMissingJobs order N (ls i))) c
           = Some (timesMissing (reissueMissingJobs_missingHash (ls i)) c)" by blast
      with CH ij t have "reissueMissingJobs_missingHash (ls (Suc i)) c = Some (N - int j + int i)" by simp
      then show ?case by (simp add: timesMissing_def)
    qed
    from H have pre: "rescuePre order (ls j)" and m: "c \<in> missingJobs (ls j)" by simp_all
    from tm[of j] have "timesMissing (reissueMissingJobs_missingHash (ls j)) c = N" by simp
    with one[OF pre] m have K: "\<exists>ks. c \<in> set ks
              \<and> bs_killed (batchSystem (stateOf (reissueMissingJobs order N (ls j))))
                  = bs_killed (batchSystem (ls j)) @ ks" by blast
    have "\<forall>i<j. reissueMissingJobs_missingHash (ls (Suc i)) c = Some (N - int j + int i)"
    proof (intro allI impI)
      fix i assume ij: "i < j"
      from H ij have pre: "rescuePre order (ls i)" and m: "c \<in> missingJobs (ls i)" by simp_all
      from tm[of i] ij have t: "timesMissing (reissueMissingJobs_missingHash (ls i)) c = N - int j + int i"
        by simp
      with ij have ne: "timesMissing (reissueMissingJobs_missingHash (ls i)) c \<noteq> N" by simp
      from one[OF pre] m ne have
        "reissueMissingJobs_missingHash (stateOf (reissueMissingJobs order N (ls i))) c
           = Some (timesMissing (reissueMissingJobs_missingHash (ls i)) c)" by blast
      with CH ij t show "reissueMissingJobs_missingHash (ls (Suc i)) c = Some (N - int j + int i)" by simp
    qed
    with K show ?thesis by blast
  qed
  from one[of l] many show ?thesis by blast
qed

lemma S6_pre:
  "rescuePre sorted_list_of_set (S6_cycle 0) \<and> 0 \<in> missingJobs (S6_cycle 0)"
  "rescuePre sorted_list_of_set (S6_cycle 1) \<and> 0 \<in> missingJobs (S6_cycle 1)"
  "rescuePre sorted_list_of_set (S6_cycle 2) \<and> 0 \<in> missingJobs (S6_cycle 2)"
  using S6_lost_facts S6_cycle1 S6_cycle2
  by (simp_all add: rescuePre_def missingJobs_def)

lemma reissueMissingJobs_rescue_S6:
  "timesMissing (reissueMissingJobs_missingHash (S6_cycle 0)) 0 = 3 - int 2
   \<and> rescuePre sorted_list_of_set (S6_cycle 0) \<and> 0 \<in> missingJobs (S6_cycle 0)
   \<and> rescuePre sorted_list_of_set (S6_cycle 1) \<and> 0 \<in> missingJobs (S6_cycle 1)
   \<and> rescuePre sorted_list_of_set (S6_cycle 2) \<and> 0 \<in> missingJobs (S6_cycle 2)
   \<and> reissueMissingJobs_missingHash (S6_cycle 1) 0 = Some 1
   \<and> reissueMissingJobs_missingHash (S6_cycle 2) 0 = Some 2
   \<and> 0 \<in> set (bs_killed (batchSystem (S6_cycle 3)))
   \<and> bs_killed (batchSystem (S6_cycle 2)) = []
   \<and> returned (reissueMissingJobs sorted_list_of_set 3 (S6_cycle 2)) = Some True
   \<and> updatedJobs (toilState (S6_cycle 3)) = {(1, 1)}"
proof -
  have t0: "timesMissing (reissueMissingJobs_missingHash (S6_cycle 0)) 0 = 3 - int 2"
    using S6_lost_facts(3) by (simp add: timesMissing_def)
  have pre: "\<forall>i\<le>2. rescuePre sorted_list_of_set (S6_cycle i) \<and> 0 \<in> missingJobs (S6_cycle i)"
  proof (intro allI impI)
    fix i :: nat assume "i \<le> 2"
    then consider "i = 0" | "i = 1" | "i = 2" by linarith
    then show "rescuePre sorted_list_of_set (S6_cycle i) \<and> 0 \<in> missingJobs (S6_cycle i)"
      using S6_pre by cases simp_all
  qed
  have ch: "\<forall>i<2. reissueMissingJobs_missingHash (S6_cycle (Suc i))
               = reissueMissingJobs_missingHash (stateOf (reissueMissingJobs sorted_list_of_set 3 (S6_cycle i)))"
    by simp
  from reissueMissingJobs_rescue[of sorted_list_of_set "S6_cycle 2" 3 2 S6_cycle 0] pre t0 ch
  have K: "\<exists>ks. 0 \<in> set ks
              \<and> bs_killed (batchSystem (stateOf (reissueMissingJobs sorted_list_of_set 3 (S6_cycle 2))))
                  = bs_killed (batchSystem (S6_cycle 2)) @ ks"
    and C: "\<forall>i<2. reissueMissingJobs_missingHash (S6_cycle (Suc i)) 0 = Some (3 - int 2 + int i)"
    by blast+
  have s3: "S6_cycle 3 = stateOf (reissueMissingJobs sorted_list_of_set 3 (S6_cycle 2))"
    by (simp add: eval_nat_numeral)
  from K s3 have k: "0 \<in> set (bs_killed (batchSystem (S6_cycle 3)))" by auto
  have c1: "reissueMissingJobs_missingHash (S6_cycle 1) 0 = Some 1"
    using C[THEN spec, of 0] by (simp add: eval_nat_numeral del: S6_cycle.simps)
  have c2: "reissueMissingJobs_missingHash (S6_cycle 2) 0 = Some 2"
    using C[THEN spec, of 1] by (simp add: eval_nat_numeral del: S6_cycle.simps)
  have b2: "bs_killed (batchSystem (S6_cycle 2)) = []"
    using S6_cycle2 by (simp add: S6_defs scenario_defs issueJob_def Let_def)
  from t0 S6_pre c1 c2 k b2 S6_cycle3(4,6) show ?thesis by simp
qed

text \<open>
  C7. A job that reappears in the batch system's issued set does not have its missing
  count cleared, and the call does not return true although no job is missing. In
  S6 the job with batch system ID 0 was counted once and is then listed again by the
  batch system: it is tracked and listed, so no job is missing, yet its entry stays
  in the hash with count 1 and \<open>reissueMissingJobs\<close> returns false. The clean-up loop
  of lines 1003-1007 removes the keys of the hash that the Leader no longer tracks
  (\<^verbatim>\<open>missingJobIDsSet.difference(jobBatchSystemIDsSet)\<close>), not the keys the batch system
  lists again.
\<close>

theorem reissueMissingJobs_reappeared_not_cleared:
  "0 \<in> dom (jobBatchSystemIDToIssuedJob S6_reappeared)
   \<and> 0 \<in> set (bs_issued (batchSystem S6_reappeared))
   \<and> missingJobs S6_reappeared = {}
   \<and> reissueMissingJobs_missingHash S6_reappeared 0 = Some 1
   \<and> reissueMissingJobs_missingHash
        (stateOf (reissueMissingJobs sorted_list_of_set 3 S6_reappeared)) 0 = Some 1
   \<and> returned (reissueMissingJobs sorted_list_of_set 3 S6_reappeared) = Some False"
  using S6_lost_facts(1,2,3) S6_cycle1 S6_reappeared_eval
  by (simp add: S6_reappeared_def missingJobs_def)

subsection \<open>Leader.run\<close>

lemma finishRun_cases:
  "finishRun unpickle l =
     (if failedJobsLeft l \<noteq> {||}
      then Err (FailedJobsException (cfg_jobStore (config l)) (fcard (failedJobsLeft l)))
             (l\<lparr>toilState := (toilState l)\<lparr>totalFailedJobs := failedJobsLeft l\<rparr>\<rparr>)
      else case js_sharedFiles (jobStore l) ''rootJobReturnValue'' of
             None \<Rightarrow> Err NoSuchFileException (l\<lparr>toilState := (toilState l)\<lparr>totalFailedJobs := {||}\<rparr>\<rparr>)
           | Some bytes \<Rightarrow>
               (case unpickle bytes of
                  Inr v \<Rightarrow> Ok v (l\<lparr>toilState := (toilState l)\<lparr>totalFailedJobs := {||}\<rparr>\<rparr>)
                | Inl e \<Rightarrow>
                    if e = EOFError
                    then Err (FailedJobsException (cfg_jobStore (config l)) 0)
                           (l\<lparr>toilState := (toilState l)\<lparr>totalFailedJobs := {||}\<rparr>\<rparr>)
                    else Err e (l\<lparr>toilState := (toilState l)\<lparr>totalFailedJobs := {||}\<rparr>\<rparr>)))"
  by (auto simp: finishRun_def failedJobsLeft_def FailedJobsException_init_def Let_def fcard_fempty
        split: option.splits sum.splits)

text \<open>
  C4 (as amended). When the main loop has returned, \<open>run\<close> keeps the totally failed
  jobs that the job store still holds. It raises FailedJobsException exactly when that
  set is non-empty or unpickling the root job's return value raises EOFError (the
  unpickler raising no FailedJobsException of its own); the exception carries the
  job store locator and the size of that set. It returns a value exactly when the set
  is empty and the shared file unpickles to that value.
\<close>

theorem run_outcome:
  assumes loop: "innerLoop py depth envs startTime l = Ok () l1"
    and unp: "\<forall>bytes loc n. unpickle bytes \<noteq> Inl (FailedJobsException loc n)"
  shows "((\<exists>loc n. raised (run py depth envs startTime unpickle l) = Some (FailedJobsException loc n))
            \<longleftrightarrow> failedJobsLeft l1 \<noteq> {||}
                \<or> (\<exists>bytes. js_sharedFiles (jobStore l1) ''rootJobReturnValue'' = Some bytes
                      \<and> unpickle bytes = Inl EOFError))
    \<and> (\<forall>loc n. raised (run py depth envs startTime unpickle l) = Some (FailedJobsException loc n)
          \<longrightarrow> loc = cfg_jobStore (config l1) \<and> n = fcard (failedJobsLeft l1))
    \<and> (\<forall>v. returned (run py depth envs startTime unpickle l) = Some v
          \<longleftrightarrow> failedJobsLeft l1 = {||}
              \<and> (\<exists>bytes. js_sharedFiles (jobStore l1) ''rootJobReturnValue'' = Some bytes
                    \<and> unpickle bytes = Inr v))
    \<and> totalFailedJobs (toilState (stateOf (run py depth envs startTime unpickle l))) = failedJobsLeft l1"
proof -
  have r: "run py depth envs startTime unpickle l = finishRun unpickle l1"
    using loop by (simp add: run_def)
  show ?thesis
    unfolding r finishRun_cases using unp
    by (auto simp: raised_def returned_def stateOf_def split: option.splits sum.splits)
qed

lemma S1_finished_loop:
  "innerLoop scenarioOrder 1 [quietEnv] 0 (S1_finished bytes) = Ok () (S1_finished bytes)"
  by (simp add: innerLoopIteration_def environmentStep_def quietEnv_def exitCriterion_def
        getNumberOfJobsIssued_def consistencyCheck_def S1_finished_def scenario_defs Let_def)


lemma S1_failed_loop:
  "innerLoop scenarioOrder 1 [quietEnv] 0 S1_failed = Ok () S1_failed"
  by (simp add: innerLoopIteration_def environmentStep_def quietEnv_def exitCriterion_def
        getNumberOfJobsIssued_def consistencyCheck_def S1_failed_def scenario_defs Let_def)

lemma S1_failed_left: "failedJobsLeft S1_failed = {|''A''|}"
  by (auto simp: failedJobsLeft_def S1_failed_def scenario_defs jobStore_exists_def)

lemma scenarioUnpickle_exn: "\<forall>bytes loc n. scenarioUnpickle bytes \<noteq> Inl (FailedJobsException loc n)"
  by (simp add: scenarioUnpickle_def)

theorem run_outcome_witness:
  "innerLoop scenarioOrder 1 [quietEnv] 0 (S1_finished ''42'') = Ok () (S1_finished ''42'')
   \<and> returned (run scenarioOrder 1 [quietEnv] 0 scenarioUnpickle (S1_finished ''42'')) = Some ''42''
   \<and> innerLoop scenarioOrder 1 [quietEnv] 0 S1_failed = Ok () S1_failed
   \<and> failedJobsLeft S1_failed = {|''A''|}
   \<and> raised (run scenarioOrder 1 [quietEnv] 0 scenarioUnpickle S1_failed)
        = Some (FailedJobsException ''file:store'' 1)"
proof -
  have f: "failedJobsLeft (S1_finished ''42'') = {||}"
    "js_sharedFiles (jobStore (S1_finished ''42'')) ''rootJobReturnValue'' = Some ''42''"
    "scenarioUnpickle ''42'' = Inr ''42''"
    by (auto simp: failedJobsLeft_def S1_finished_def scenario_defs scenarioUnpickle_def)
  from run_outcome[OF S1_finished_loop scenarioUnpickle_exn, of "''42''"] f
  have a: "returned (run scenarioOrder 1 [quietEnv] 0 scenarioUnpickle (S1_finished ''42'')) = Some ''42''"
    by blast
  from run_outcome[OF S1_failed_loop scenarioUnpickle_exn] S1_failed_left
  obtain loc n where "raised (run scenarioOrder 1 [quietEnv] 0 scenarioUnpickle S1_failed)
        = Some (FailedJobsException loc n)" by auto
  moreover from this run_outcome[OF S1_failed_loop scenarioUnpickle_exn] S1_failed_left
  have "loc = cfg_jobStore (config S1_failed) \<and> n = fcard {|''A''|}" by metis
  moreover have "cfg_jobStore (config S1_failed) = ''file:store''" "fcard {|''A''|} = 1"
    by (simp_all add: S1_failed_def scenario_defs fcard_finsert_if fcard_fempty)
  ultimately have b: "raised (run scenarioOrder 1 [quietEnv] 0 scenarioUnpickle S1_failed)
        = Some (FailedJobsException ''file:store'' 1)" by simp
  from a b S1_finished_loop S1_failed_loop S1_failed_left show ?thesis by simp
qed

lemma S1_finished_left: "failedJobsLeft (S1_finished bytes) = {||}"
  by (auto simp: failedJobsLeft_def S1_finished_def scenario_defs)

theorem run_outcome_counterexample:
  "totalFailedJobs (toilState (S1_finished [])) = {||}
   \<and> innerLoop scenarioOrder 1 [quietEnv] 0 (S1_finished []) = Ok () (S1_finished [])
   \<and> raised (run scenarioOrder 1 [quietEnv] 0 scenarioUnpickle (S1_finished []))
        = Some (FailedJobsException ''file:store'' 0)"
proof -
  have a: "totalFailedJobs (toilState (S1_finished [])) = {||}"
    by (simp add: S1_finished_def scenario_defs)
  have r: "run scenarioOrder 1 [quietEnv] 0 scenarioUnpickle (S1_finished [])
             = finishRun scenarioUnpickle (S1_finished [])"
    unfolding run_def S1_finished_loop by simp
  have f: "js_sharedFiles (jobStore (S1_finished [])) ''rootJobReturnValue'' = Some []"
    "cfg_jobStore (config (S1_finished [])) = ''file:store''"
    by (simp_all add: S1_finished_def scenario_defs)
  have "raised (finishRun scenarioUnpickle (S1_finished [])) = Some (FailedJobsException ''file:store'' 0)"
    unfolding finishRun_cases using f S1_finished_left[of "[]"]
    by (simp add: raised_def scenarioUnpickle_def)
  with a r S1_finished_loop show ?thesis by simp
qed

subsection \<open>Leader.innerLoop: leaving the loop\<close>

lemma exitCriterion_True:
  assumes "exitCriterion l = Ok True l'"
  shows "l' = l \<and> updatedJobs (toilState l) = {} \<and> jobsIssued l = 0
     \<and> serviceJobsIssuedToServiceManager (serviceManager l) = 0"
  using assms
  by (auto simp: exitCriterion_def getNumberOfJobsIssued_def split: if_splits res.splits)

lemma innerLoopIteration_leaves:
  assumes "innerLoopIteration py depth env t l = Ok None l'"
  shows "exitCriterion l' = Ok True l'"
proof -
  let ?l0 = "environmentStep env l"
  let ?d = "(if updatedJobs (toilState ?l0) \<noteq> {} then
              (case getNumberOfJobsIssued ?l0 of
                 Err e l1 \<Rightarrow> Err e l1
               | Ok n l1 \<Rightarrow>
                   processUpdatedJobs py depth (order_updated py (updatedJobs (toilState l1)))
                     (l1\<lparr>toilState := (toilState l1)\<lparr>updatedJobs := {}\<rparr>\<rparr>))
            else Ok () ?l0)"
  from assms obtain l1 where d: "?d = Ok () l1"
    by (cases ?d) (auto simp: innerLoopIteration_def Let_def)
  from assms d obtain leave l2 where e: "exitCriterion l1 = Ok leave l2"
    by (cases "exitCriterion l1") (auto simp: innerLoopIteration_def Let_def)
  have "leave"
  proof (rule ccontr)
    assume "\<not> leave"
    with assms d e show False
      by (auto simp: innerLoopIteration_def Let_def split: res.splits)
  qed
  with assms d e have "l' = l2" by (simp add: innerLoopIteration_def Let_def)
  moreover from e \<open>leave\<close> have "l2 = l1" using exitCriterion_True[of l1 l2] by simp
  ultimately show ?thesis using e \<open>leave\<close> by simp
qed

lemma consistencyCheck_Ok:
  "consistencyCheck l = Ok () l' \<longleftrightarrow>
     l' = l \<and> updatedJobs (toilState l) = {} \<and> successorCounts (toilState l) = Map.empty
     \<and> successorJobStoreIDToPredecessorJobs (toilState l) = Map.empty
     \<and> serviceJobStoreIDToPredecessorJob (toilState l) = Map.empty
     \<and> servicesIssued (toilState l) = Map.empty"
  by (auto simp: consistencyCheck_def Let_def)

lemma consistencyCheck_Err:
  "consistencyCheck l = Ok () l \<or> consistencyCheck l = Err AssertionError l"
  by (auto simp: consistencyCheck_def Let_def)

text \<open>
  What the consistency check of lines 885-890 gives: when \<open>innerLoop\<close> returns,
  \<open>updatedJobs\<close>, \<open>successorCounts\<close>, the map of successors to predecessors, the map of
  services to predecessors and \<open>servicesIssued\<close> are all empty, no job is issued and
  the service manager's count is zero.
\<close>

lemma innerLoop_returns_checked:
  "(\<forall>l'. innerLoop py depth envs t l = Ok () l' \<longrightarrow>
       updatedJobs (toilState l') = {} \<and> successorCounts (toilState l') = Map.empty
     \<and> successorJobStoreIDToPredecessorJobs (toilState l') = Map.empty
     \<and> serviceJobStoreIDToPredecessorJob (toilState l') = Map.empty
     \<and> servicesIssued (toilState l') = Map.empty
     \<and> jobsIssued l' = 0 \<and> serviceJobsIssuedToServiceManager (serviceManager l') = 0)
   \<and> (\<forall>l'. innerLoopIteration py depth env t l = Ok None l' \<longrightarrow>
       updatedJobs (toilState l') = {} \<and> jobsIssued l' = 0
     \<and> serviceJobsIssuedToServiceManager (serviceManager l') = 0
     \<and> (successorCounts (toilState l') = Map.empty
          \<and> successorJobStoreIDToPredecessorJobs (toilState l') = Map.empty
          \<and> serviceJobStoreIDToPredecessorJob (toilState l') = Map.empty
          \<and> servicesIssued (toilState l') = Map.empty
          \<longrightarrow> innerLoop py depth (env # envs) t l = Ok () l')
     \<and> (\<not> (successorCounts (toilState l') = Map.empty
          \<and> successorJobStoreIDToPredecessorJobs (toilState l') = Map.empty
          \<and> serviceJobStoreIDToPredecessorJob (toilState l') = Map.empty
          \<and> servicesIssued (toilState l') = Map.empty)
          \<longrightarrow> innerLoop py depth (env # envs) t l = Err AssertionError l'))"
proof -
  have A: "innerLoop py depth envs t l = Ok () l' \<Longrightarrow>
       updatedJobs (toilState l') = {} \<and> successorCounts (toilState l') = Map.empty
     \<and> successorJobStoreIDToPredecessorJobs (toilState l') = Map.empty
     \<and> serviceJobStoreIDToPredecessorJob (toilState l') = Map.empty
     \<and> servicesIssued (toilState l') = Map.empty
     \<and> jobsIssued l' = 0 \<and> serviceJobsIssuedToServiceManager (serviceManager l') = 0" for l'
  proof (induction envs arbitrary: t l)
    case Nil
    then show ?case by simp
  next
    case (Cons env envs)
    show ?case
    proof (cases "innerLoopIteration py depth env t l")
      case (Err e l1)
      with Cons.prems show ?thesis by simp
    next
      case (Ok v l1)
      show ?thesis
      proof (cases v)
        case None
        with Ok Cons.prems have c: "consistencyCheck l1 = Ok () l'" by simp
        then have eq: "l' = l1" by (simp add: consistencyCheck_Ok)
        from Ok None have "exitCriterion l1 = Ok True l1" by (simp add: innerLoopIteration_leaves)
        from exitCriterion_True[OF this] c eq show ?thesis by (simp add: consistencyCheck_Ok)
      next
        case (Some t')
        with Ok Cons.prems have "innerLoop py depth envs t' l1 = Ok () l'" by simp
        from Cons.IH[OF this] show ?thesis .
      qed
    qed
  qed
  have B: "updatedJobs (toilState l') = {} \<and> jobsIssued l' = 0
     \<and> serviceJobsIssuedToServiceManager (serviceManager l') = 0
     \<and> (successorCounts (toilState l') = Map.empty
          \<and> successorJobStoreIDToPredecessorJobs (toilState l') = Map.empty
          \<and> serviceJobStoreIDToPredecessorJob (toilState l') = Map.empty
          \<and> servicesIssued (toilState l') = Map.empty
          \<longrightarrow> innerLoop py depth (env # envs) t l = Ok () l')
     \<and> (\<not> (successorCounts (toilState l') = Map.empty
          \<and> successorJobStoreIDToPredecessorJobs (toilState l') = Map.empty
          \<and> serviceJobStoreIDToPredecessorJob (toilState l') = Map.empty
          \<and> servicesIssued (toilState l') = Map.empty)
          \<longrightarrow> innerLoop py depth (env # envs) t l = Err AssertionError l')"
    if it: "innerLoopIteration py depth env t l = Ok None l'" for l'
  proof -
    from it have "exitCriterion l' = Ok True l'" by (rule innerLoopIteration_leaves)
    from exitCriterion_True[OF this] have e: "updatedJobs (toilState l') = {}" "jobsIssued l' = 0"
      "serviceJobsIssuedToServiceManager (serviceManager l') = 0" by simp_all
    have r: "innerLoop py depth (env # envs) t l = consistencyCheck l'" using it by simp
    from e r show ?thesis by (auto simp: consistencyCheck_def Let_def)
  qed
  from A B show ?thesis by blast
qed


lemmas loop_eval = innerLoopIteration_def environmentStep_def quietEnv_def exitCriterion_def
  getNumberOfJobsIssued_def consistencyCheck_def processUpdatedJob_def issueJob_def hasJob_def
  gatherUpdatedJob_def checkThreads_def getServiceJobsToStart_def getJobWrapperWhoseServicesAreRunning_def
  Queue_get_def processFinishedJob_def removeJobID_def jobStore_exists_def processRemovedJob_def
  updatePredecessorStatus_def updatePredecessor_def scenarioOrder_def workerDeletes_def batchReports_def
  scheduleSuccessors_def scheduleSuccessor_def

lemma S1_run: "returned (innerLoop scenarioOrder 2 S1_envs 0 S1_built) = Some ()"
  by (simp add: S1_envs_def loop_eval S1_defs scenario_defs Let_def returned_def)

lemma S1_run_checked:
  "returned (innerLoop scenarioOrder 2 S1_envs 0 S1_built) = Some ()
   \<and> updatedJobs (toilState (stateOf (innerLoop scenarioOrder 2 S1_envs 0 S1_built))) = {}
   \<and> successorCounts (toilState (stateOf (innerLoop scenarioOrder 2 S1_envs 0 S1_built))) = Map.empty
   \<and> successorJobStoreIDToPredecessorJobs
        (toilState (stateOf (innerLoop scenarioOrder 2 S1_envs 0 S1_built))) = Map.empty
   \<and> servicesIssued (toilState (stateOf (innerLoop scenarioOrder 2 S1_envs 0 S1_built))) = Map.empty
   \<and> jobsIssued (stateOf (innerLoop scenarioOrder 2 S1_envs 0 S1_built)) = 0"
proof -
  from S1_run obtain l' where ok: "innerLoop scenarioOrder 2 S1_envs 0 S1_built = Ok () l'"
    by (cases "innerLoop scenarioOrder 2 S1_envs 0 S1_built") (auto simp: returned_def)
  from innerLoop_returns_checked[of scenarioOrder 2 S1_envs 0 S1_built] ok
  have "updatedJobs (toilState l') = {} \<and> successorCounts (toilState l') = Map.empty
     \<and> successorJobStoreIDToPredecessorJobs (toilState l') = Map.empty
     \<and> servicesIssued (toilState l') = Map.empty \<and> jobsIssued l' = 0" by blast
  with ok S1_run show ?thesis by (simp add: stateOf_def)
qed


subsection \<open>The traversal leaves the job store as it is\<close>

lemma getJob_store: "jobStore (stateOf (getJob jobCache i l)) = jobStore l"
  by (auto simp: getJob_def jobStore_load_def dict_getitem_def stateOf_def
      split: option.splits sum.splits)

lemma process_store:
  assumes "\<forall>a l. jobStore (stateOf (recurse a l)) = jobStore l"
  shows "jobStore (stateOf (processSuccessorWithMultiplePredecessors recurse J sid S l)) = jobStore l"
  using assms
  by (auto simp: processSuccessorWithMultiplePredecessors_def Let_def dict_pop_def stateOf_def
      split: option.splits sum.splits)

lemma buildSuccessor_store:
  assumes rec: "\<forall>a l. jobStore (stateOf (recurse a l)) = jobStore l"
  shows "jobStore (stateOf (buildSuccessor recurse jobCache J t l)) = jobStore l"
proof (cases "successorJobStoreIDToPredecessorJobs (toilState l) (succID t)")
  case (Some preds)
  then show ?thesis
    using process_store[OF rec]
    by (auto simp: buildSuccessor_def Let_def stateOf_def split: option.splits)
next
  case None
  let ?l1 = "l\<lparr>toilState := (toilState l)\<lparr>successorJobStoreIDToPredecessorJobs :=
                      (successorJobStoreIDToPredecessorJobs (toilState l))
                        (succID t \<mapsto> [J])\<rparr>\<rparr>"
  have g: "jobStore (stateOf (getJob jobCache (succID t) ?l1)) = jobStore l"
    using getJob_store[of jobCache "succID t" ?l1] by simp
  show ?thesis
  proof (cases "getJob jobCache (succID t) ?l1")
    case (Err e l2)
    with None g show ?thesis by (simp add: buildSuccessor_def Let_def stateOf_def)
  next
    case (Ok a l2)
    with g have s2: "jobStore l2 = jobStore l" by (simp add: stateOf_def)
    show ?thesis
    proof (cases "succPred t")
      case np: None
      with None Ok have "buildSuccessor recurse jobCache J t l = recurse a l2"
        by (simp add: buildSuccessor_def Let_def)
      with rec s2 show ?thesis by simp
    next
      case (Some pid)
      let ?l3 = "l2\<lparr>toilState := (toilState l2)\<lparr>jobsToBeScheduledWithMultiplePredecessors :=
                                  (jobsToBeScheduledWithMultiplePredecessors (toilState l2))
                                    (succID t \<mapsto> a)\<rparr>\<rparr>"
      from None Ok Some have "buildSuccessor recurse jobCache J t l =
         (if succID t \<in> dom (jobsToBeScheduledWithMultiplePredecessors (toilState l2))
          then Err AssertionError l2
          else processSuccessorWithMultiplePredecessors recurse J (succID t) a ?l3)"
        by (simp add: buildSuccessor_def Let_def)
      with process_store[OF rec, of J "succID t" a ?l3] s2 show ?thesis
        by (simp add: stateOf_def)
    qed
  qed
qed

lemma buildSuccessors_store:
  assumes rec: "\<forall>a l. jobStore (stateOf (recurse a l)) = jobStore l"
  shows "jobStore (stateOf (buildSuccessors recurse jobCache J ts l)) = jobStore l"
proof (induction ts arbitrary: l)
  case Nil
  then show ?case by (simp add: stateOf_def)
next
  case (Cons t ts)
  show ?case
  proof (cases "buildSuccessor recurse jobCache J t l")
    case (Ok u l1)
    with buildSuccessor_store[OF rec, of jobCache J t l] have "jobStore l1 = jobStore l"
      by (simp add: stateOf_def)
    with Cons.IH[of l1] Ok show ?thesis by simp
  next
    case (Err e l1)
    with buildSuccessor_store[OF rec, of jobCache J t l] show ?thesis by (simp add: stateOf_def)
  qed
qed

lemma buildToilState_store:
  "jobStore (stateOf (buildToilState depth jobCache J l)) = jobStore l"
proof (induction depth arbitrary: J l)
  case 0
  then show ?case by (simp add: stateOf_def)
next
  case (Suc depth)
  have rec: "\<forall>a l. jobStore (stateOf (buildToilState depth jobCache a l)) = jobStore l"
    using Suc.IH by blast
  show ?case
  proof (cases "readyToProcess (objs l J)")
    case True
    then show ?thesis by (simp add: Let_def stateOf_def)
  next
    case False
    then show ?thesis
      using buildSuccessors_store[OF rec] by (simp add: Let_def)
  qed
qed


text \<open>
  C10. The construction of a ToilState does not write to the job store: whatever the
  root job, the job cache and the outcome (a return or an exception), the job store
  afterwards is the job store before. In particular, for a root job with a
  checkpoint the wrapper in memory gets the checkpoint as its command while the
  records of the store are unchanged.
\<close>

theorem ToilState_init_job_store_unchanged:
  "jobStore (stateOf (ToilState_init depth rootJob jobCache l)) = jobStore l
   \<and> (checkpoint (objs l rootJob) \<noteq> None \<longrightarrow>
        command (objs (stateOf (ToilState_init (Suc depth) rootJob jobCache l)) rootJob)
          = checkpoint (objs l rootJob)
        \<and> js_records (jobStore (stateOf (ToilState_init (Suc depth) rootJob jobCache l)))
          = js_records (jobStore l))"
proof -
  have s: "\<And>d. jobStore (stateOf (ToilState_init d rootJob jobCache l)) = jobStore l"
    unfolding ToilState_init_def using buildToilState_store[of _ jobCache rootJob "l\<lparr>toilState := ToilState_fields\<rparr>"]
    by simp
  have c: "checkpoint (objs l rootJob) \<noteq> None \<Longrightarrow>
        command (objs (stateOf (ToilState_init (Suc depth) rootJob jobCache l)) rootJob)
          = checkpoint (objs l rootJob)"
    by (simp add: ToilState_init_def readyToProcess_def Let_def stateOf_def)
  from s c show ?thesis by simp
qed

theorem ToilState_init_job_store_unchanged_witness:
  "checkpoint (objs S4_leader 0) \<noteq> None
   \<and> command (objs (stateOf (ToilState_init 1 0 None S4_leader)) 0) = Some ''orig-cmd''
   \<and> map_option command (js_records (jobStore (stateOf (ToilState_init 1 0 None S4_leader))) ''A'')
       = Some None"
  using ToilState_init_job_store_unchanged[of 0 0 None S4_leader]
  by (simp add: S4_leader_def S4_A_def S4_B_def scenario_defs)


subsection \<open>What the traversal does at one job\<close>

lemma predsGrow_refl [simp]: "predsGrow l l"
  by (simp add: predsGrow_def)

lemma predsGrow_trans: "predsGrow l l1 \<Longrightarrow> predsGrow l1 l2 \<Longrightarrow> predsGrow l l2"
  unfolding predsGrow_def by (meson subset_trans)

lemma predsGrow_same:
  "successorJobStoreIDToPredecessorJobs (toilState l') = successorJobStoreIDToPredecessorJobs (toilState l)
   \<Longrightarrow> successorCounts (toilState l') = successorCounts (toilState l) \<Longrightarrow> predsGrow l l'"
  by (simp add: predsGrow_def)

lemma getJob_grow: "predsGrow l (stateOf (getJob jobCache i l))"
  by (auto simp: getJob_def jobStore_load_def dict_getitem_def stateOf_def
      intro!: predsGrow_same split: option.splits sum.splits)

lemma process_grow:
  assumes rec: "\<forall>a l. predsGrow l (stateOf (recurse a l))"
  shows "predsGrow l (stateOf (processSuccessorWithMultiplePredecessors recurse J sid S l))"
proof -
  define l1 where "l1 = (if jobStoreID (objs l J) |\<notin>| predecessorsFinished (objs l S)
                then l\<lparr>objs := (objs l)(S :=
                         (objs l S)\<lparr>predecessorsFinished := finsert (jobStoreID (objs l J)) (predecessorsFinished (objs l S))\<rparr>)\<rparr>
                else l)"
  have g1: "predsGrow l l1" by (rule predsGrow_same) (simp_all add: l1_def)
  have r: "\<And>d. predsGrow l (stateOf (recurse S
             (l1\<lparr>toilState := (toilState l1)\<lparr>jobsToBeScheduledWithMultiplePredecessors := d\<rparr>\<rparr>)))"
  proof -
    fix d
    have "predsGrow l1 (l1\<lparr>toilState := (toilState l1)\<lparr>jobsToBeScheduledWithMultiplePredecessors := d\<rparr>\<rparr>)"
      by (rule predsGrow_same) simp_all
    with g1 rec predsGrow_trans show "predsGrow l (stateOf (recurse S
             (l1\<lparr>toilState := (toilState l1)\<lparr>jobsToBeScheduledWithMultiplePredecessors := d\<rparr>\<rparr>)))"
      by blast
  qed
  have e: "processSuccessorWithMultiplePredecessors recurse J sid S l =
     (if \<not> int (fcard (predecessorsFinished (objs l1 S))) \<le> predecessorNumber (objs l1 S) then Err AssertionError l1
         else if int (fcard (predecessorsFinished (objs l1 S))) = predecessorNumber (objs l1 S) then
           (case dict_pop (jobsToBeScheduledWithMultiplePredecessors (toilState l1)) sid of
              Inl e \<Rightarrow> Err e l1
            | Inr (v, d) \<Rightarrow>
                recurse S
                  (l1\<lparr>toilState := (toilState l1)\<lparr>jobsToBeScheduledWithMultiplePredecessors := d\<rparr>\<rparr>))
         else Ok () l1)"
    unfolding processSuccessorWithMultiplePredecessors_def l1_def Let_def by simp
  show ?thesis
    unfolding e using g1 r by (auto simp: stateOf_def split: sum.splits)
qed

lemma buildSuccessor_grow:
  assumes rec: "\<forall>a l. predsGrow l (stateOf (recurse a l))"
  shows "predsGrow l (stateOf (buildSuccessor recurse jobCache J t l))
    \<and> (\<forall>l'. buildSuccessor recurse jobCache J t l = Ok () l' \<longrightarrow>
          (\<exists>ps. successorJobStoreIDToPredecessorJobs (toilState l') (succID t) = Some ps \<and> J \<in> set ps))"
proof -
  let ?sid = "succID t"
  let ?ps = "case successorJobStoreIDToPredecessorJobs (toilState l) ?sid of None \<Rightarrow> [J] | Some ps \<Rightarrow> ps @ [J]"
  let ?l1 = "l\<lparr>toilState := (toilState l)\<lparr>successorJobStoreIDToPredecessorJobs :=
                      (successorJobStoreIDToPredecessorJobs (toilState l)) (?sid \<mapsto> ?ps)\<rparr>\<rparr>"
  have g1: "predsGrow l ?l1"
    by (auto simp: predsGrow_def split: option.splits)
  have in1: "\<And>l'. predsGrow ?l1 l' \<Longrightarrow>
      \<exists>ps. successorJobStoreIDToPredecessorJobs (toilState l') ?sid = Some ps \<and> J \<in> set ps"
    unfolding predsGrow_def by (cases "successorJobStoreIDToPredecessorJobs (toilState l) ?sid") force+
  have main: "buildSuccessor recurse jobCache J t l = Err AssertionError l
      \<or> predsGrow ?l1 (stateOf (buildSuccessor recurse jobCache J t l))"
  proof (cases "successorJobStoreIDToPredecessorJobs (toilState l) ?sid")
    case (Some preds)
    then have l1: "?l1 = l\<lparr>toilState := (toilState l)\<lparr>successorJobStoreIDToPredecessorJobs :=
                      (successorJobStoreIDToPredecessorJobs (toilState l)) (?sid \<mapsto> preds @ [J])\<rparr>\<rparr>"
      by simp
    show ?thesis
      using Some process_grow[OF rec, of ?l1 J ?sid]
      unfolding l1
      by (auto simp: buildSuccessor_def Let_def stateOf_def split: option.splits)
  next
    case None
    then have l1: "?l1 = l\<lparr>toilState := (toilState l)\<lparr>successorJobStoreIDToPredecessorJobs :=
                      (successorJobStoreIDToPredecessorJobs (toilState l)) (?sid \<mapsto> [J])\<rparr>\<rparr>"
      by simp
    have g: "predsGrow ?l1 (stateOf (getJob jobCache ?sid ?l1))" by (rule getJob_grow)
    show ?thesis
    proof (cases "getJob jobCache ?sid ?l1")
      case (Err e l2)
      with None g show ?thesis unfolding l1 by (simp add: buildSuccessor_def Let_def stateOf_def)
    next
      case (Ok a l2)
      with g have g2: "predsGrow ?l1 l2" by (simp add: stateOf_def)
      show ?thesis
      proof (cases "succPred t")
        case np: None
        with None Ok have e: "buildSuccessor recurse jobCache J t l = recurse a l2"
          unfolding l1 by (simp add: buildSuccessor_def Let_def)
        from rec have "predsGrow l2 (stateOf (recurse a l2))" by blast
        with g2 have "predsGrow ?l1 (stateOf (recurse a l2))" by (rule predsGrow_trans)
        with e show ?thesis by simp
      next
        case (Some pid)
        let ?l3 = "l2\<lparr>toilState := (toilState l2)\<lparr>jobsToBeScheduledWithMultiplePredecessors :=
                                  (jobsToBeScheduledWithMultiplePredecessors (toilState l2))
                                    (?sid \<mapsto> a)\<rparr>\<rparr>"
        have g3: "predsGrow l2 ?l3" by (rule predsGrow_same) simp_all
        from None Ok Some have e: "buildSuccessor recurse jobCache J t l =
           (if ?sid \<in> dom (jobsToBeScheduledWithMultiplePredecessors (toilState l2))
            then Err AssertionError l2
            else processSuccessorWithMultiplePredecessors recurse J ?sid a ?l3)"
          unfolding l1 by (simp add: buildSuccessor_def Let_def)
        have "predsGrow ?l1 (stateOf (processSuccessorWithMultiplePredecessors recurse J ?sid a ?l3))"
          using process_grow[OF rec, of ?l3 J ?sid a] g2 g3 predsGrow_trans by blast
        with e g2 show ?thesis by (auto simp: stateOf_def)
      qed
    qed
  qed
  have a: "predsGrow l (stateOf (buildSuccessor recurse jobCache J t l))"
    using main g1 predsGrow_trans by (auto simp: stateOf_def)
  have b: "\<forall>l'. buildSuccessor recurse jobCache J t l = Ok () l' \<longrightarrow>
          (\<exists>ps. successorJobStoreIDToPredecessorJobs (toilState l') ?sid = Some ps \<and> J \<in> set ps)"
    using main in1 by (auto simp: stateOf_def)
  from a b show ?thesis by blast
qed

lemma buildSuccessors_grow:
  assumes rec: "\<forall>a l. predsGrow l (stateOf (recurse a l))"
  shows "predsGrow l (stateOf (buildSuccessors recurse jobCache J ts l))
    \<and> (\<forall>l'. buildSuccessors recurse jobCache J ts l = Ok () l' \<longrightarrow>
          (\<forall>t\<in>set ts. \<exists>ps. successorJobStoreIDToPredecessorJobs (toilState l') (succID t) = Some ps
              \<and> J \<in> set ps))"
proof (induction ts arbitrary: l)
  case Nil
  then show ?case by (simp add: stateOf_def)
next
  case (Cons t ts)
  note S = buildSuccessor_grow[OF rec, of l jobCache J t]
  show ?case
  proof (cases "buildSuccessor recurse jobCache J t l")
    case (Err e l1)
    with S show ?thesis by (simp add: stateOf_def)
  next
    case (Ok u l1)
    with S have g1: "predsGrow l l1"
      and in1: "\<exists>ps. successorJobStoreIDToPredecessorJobs (toilState l1) (succID t) = Some ps \<and> J \<in> set ps"
      by (simp_all add: stateOf_def)
    from Cons.IH[of l1] have g2: "predsGrow l1 (stateOf (buildSuccessors recurse jobCache J ts l1))"
      and in2: "\<forall>l'. buildSuccessors recurse jobCache J ts l1 = Ok () l' \<longrightarrow>
          (\<forall>t\<in>set ts. \<exists>ps. successorJobStoreIDToPredecessorJobs (toilState l') (succID t) = Some ps
              \<and> J \<in> set ps)" by blast+
    have a: "predsGrow l (stateOf (buildSuccessors recurse jobCache J (t # ts) l))"
      using Ok g1 g2 predsGrow_trans by auto
    have b: "\<forall>l'. buildSuccessors recurse jobCache J (t # ts) l = Ok () l' \<longrightarrow>
          (\<forall>t'\<in>set (t # ts). \<exists>ps. successorJobStoreIDToPredecessorJobs (toilState l') (succID t') = Some ps
              \<and> J \<in> set ps)"
    proof (intro allI impI)
      fix l' assume ok: "buildSuccessors recurse jobCache J (t # ts) l = Ok () l'"
      with Ok have ok2: "buildSuccessors recurse jobCache J ts l1 = Ok () l'" by simp
      with g2 have g: "predsGrow l1 l'" by (simp add: stateOf_def)
      from in1 g have "\<exists>ps. successorJobStoreIDToPredecessorJobs (toilState l') (succID t) = Some ps \<and> J \<in> set ps"
        unfolding predsGrow_def by blast
      with in2 ok2 show "\<forall>t'\<in>set (t # ts). \<exists>ps.
          successorJobStoreIDToPredecessorJobs (toilState l') (succID t') = Some ps \<and> J \<in> set ps"
        by simp
    qed
    from a b show ?thesis by blast
  qed
qed

lemma buildToilState_grow: "predsGrow l (stateOf (buildToilState depth jobCache J l))"
proof (induction depth arbitrary: J l)
  case 0
  then show ?case by (simp add: stateOf_def)
next
  case (Suc depth)
  have rec: "\<forall>a l. predsGrow l (stateOf (buildToilState depth jobCache a l))"
    using Suc.IH by blast
  show ?case
  proof (cases "readyToProcess (objs l J)")
    case True
    then show ?thesis by (auto simp: Let_def stateOf_def intro!: predsGrow_same)
  next
    case False
    let ?l1 = "l\<lparr>toilState := (toilState l)\<lparr>successorCounts :=
                    (successorCounts (toilState l))(jobStoreID (objs l J) \<mapsto> int (length (last (stack (objs l J)))))\<rparr>\<rparr>"
    have "predsGrow l ?l1" by (auto simp: predsGrow_def)
    moreover have "predsGrow ?l1 (stateOf (buildSuccessors (buildToilState depth jobCache) jobCache J
                      (last (stack (objs l J))) ?l1))"
      using buildSuccessors_grow[OF rec] by blast
    ultimately show ?thesis using False predsGrow_trans by (simp add: Let_def)
  qed
qed

lemma buildSuccessors_snoc:
  "buildSuccessors recurse jobCache jw (ts @ [t]) l =
     (case buildSuccessors recurse jobCache jw ts l of
        Err e l1 \<Rightarrow> Err e l1
      | Ok u l1 \<Rightarrow> buildSuccessor recurse jobCache jw t l1)"
proof (induction ts arbitrary: l)
  case Nil
  show ?case by (cases "buildSuccessor recurse jobCache jw t l") simp_all
next
  case (Cons t' ts)
  show ?case
    by (cases "buildSuccessor recurse jobCache jw t' l") (simp_all add: Cons.IH)
qed

lemma buildSuccessor_first:
  assumes "successorJobStoreIDToPredecessorJobs (toilState l) (succID t) = None"
  shows "buildSuccessor recurse jobCache jw t l =
     (case getJob jobCache (succID t)
             (l\<lparr>toilState := (toilState l)\<lparr>successorJobStoreIDToPredecessorJobs :=
                   (successorJobStoreIDToPredecessorJobs (toilState l))(succID t \<mapsto> [jw])\<rparr>\<rparr>) of
        Err e l2 \<Rightarrow> Err e l2
      | Ok a l2 \<Rightarrow>
          if succPred t = None then recurse a l2
          else if succID t \<in> dom (jobsToBeScheduledWithMultiplePredecessors (toilState l2))
          then Err AssertionError l2
          else processSuccessorWithMultiplePredecessors recurse jw (succID t) a
                 (l2\<lparr>toilState := (toilState l2)\<lparr>jobsToBeScheduledWithMultiplePredecessors :=
                       (jobsToBeScheduledWithMultiplePredecessors (toilState l2))(succID t \<mapsto> a)\<rparr>\<rparr>))"
  using assms by (simp add: buildSuccessor_def Let_def split: res.splits)

lemma buildSuccessor_later:
  assumes "successorJobStoreIDToPredecessorJobs (toilState l) (succID t) = Some preds"
  shows "buildSuccessor recurse jobCache jw t l =
     (if jw \<in> set preds then Err AssertionError l
      else case jobsToBeScheduledWithMultiplePredecessors (toilState l) (succID t) of
             None \<Rightarrow>
               Ok () (l\<lparr>toilState := (toilState l)\<lparr>successorJobStoreIDToPredecessorJobs :=
                     (successorJobStoreIDToPredecessorJobs (toilState l))(succID t \<mapsto> preds @ [jw])\<rparr>\<rparr>)
           | Some a \<Rightarrow>
               processSuccessorWithMultiplePredecessors recurse jw (succID t) a
                 (l\<lparr>toilState := (toilState l)\<lparr>successorJobStoreIDToPredecessorJobs :=
                     (successorJobStoreIDToPredecessorJobs (toilState l))(succID t \<mapsto> preds @ [jw])\<rparr>\<rparr>))"
  using assms by (simp add: buildSuccessor_def Let_def split: option.splits)

lemma processJoin_outcome:
  "processSuccessorWithMultiplePredecessors recurse jw sid a l =
     (if predecessorNumber (objs l a)
           < int (fcard (finsert (jobStoreID (objs l jw)) (predecessorsFinished (objs l a))))
      then Err AssertionError
             (l\<lparr>objs := (objs l)(a := (objs l a)\<lparr>predecessorsFinished :=
                   finsert (jobStoreID (objs l jw)) (predecessorsFinished (objs l a))\<rparr>)\<rparr>)
      else if int (fcard (finsert (jobStoreID (objs l jw)) (predecessorsFinished (objs l a))))
                < predecessorNumber (objs l a)
      then Ok ()
             (l\<lparr>objs := (objs l)(a := (objs l a)\<lparr>predecessorsFinished :=
                   finsert (jobStoreID (objs l jw)) (predecessorsFinished (objs l a))\<rparr>)\<rparr>)
      else if jobsToBeScheduledWithMultiplePredecessors (toilState l) sid = None
      then Err KeyError
             (l\<lparr>objs := (objs l)(a := (objs l a)\<lparr>predecessorsFinished :=
                   finsert (jobStoreID (objs l jw)) (predecessorsFinished (objs l a))\<rparr>)\<rparr>)
      else recurse a
             (l\<lparr>objs := (objs l)(a := (objs l a)\<lparr>predecessorsFinished :=
                   finsert (jobStoreID (objs l jw)) (predecessorsFinished (objs l a))\<rparr>),
                toilState := (toilState l)\<lparr>jobsToBeScheduledWithMultiplePredecessors :=
                   (jobsToBeScheduledWithMultiplePredecessors (toilState l))(sid := None)\<rparr>\<rparr>))"
proof -
  define jid where "jid = jobStoreID (objs l jw)"
  define l1 where "l1 = l\<lparr>objs := (objs l)(a :=
                         (objs l a)\<lparr>predecessorsFinished := finsert jid (predecessorsFinished (objs l a))\<rparr>)\<rparr>"
  have l1_alt: "(if jid |\<notin>| predecessorsFinished (objs l a)
                then l\<lparr>objs := (objs l)(a :=
                         (objs l a)\<lparr>predecessorsFinished := finsert jid (predecessorsFinished (objs l a))\<rparr>)\<rparr>
                else l) = l1"
    by (auto simp: l1_def finsert_absorb)
  show ?thesis
    unfolding processSuccessorWithMultiplePredecessors_def Let_def jid_def[symmetric] l1_alt
    unfolding l1_def[symmetric]
    by (auto simp: l1_def dict_pop_def split: option.splits)
qed


lemmas S2_states = S2_atA_def S2_afterA_def S2_atB_def S2_released_def S2_built_def

lemma S2_build: "buildToilState 3 None 0 S2_leader = Ok () S2_built"
  by (simp add: S2_states S2_defs scenario_defs build_defs eval_nat_numeral fun_upd_twist
        fcard_finsert_if fcard_fempty finsert_commute)

lemma S2_visit_C: "buildToilState 1 None 2 S2_released = Ok () S2_built"
  by (simp add: S2_states S2_defs scenario_defs build_defs)

text \<open>
  C2. A visit of the traversal to the wrapper \<open>jw\<close>, with \<open>depth\<close> levels of recursion
  left for the visits it starts.

  If the job has a command, a checkpoint, services or an empty stack, the visit
  returns at once: \<open>(jw, 0)\<close> is added to \<open>updatedJobs\<close>, the command becomes the checkpoint
  when there is one, and nothing else changes, so no successor is visited.

  Otherwise the visit sets \<open>successorCounts\<close> of the job to the length of the top group
  of its stack and runs the loop over that group; when the loop returns, the job is
  still a key of \<open>successorCounts\<close> and is listed as a predecessor of every successor of
  the group. The loop handles the successors one after the other and stops at the
  first exception. A successor that no job has named before gets \<open>[jw]\<close> as its list
  of predecessors and is loaded; without a predecessor ID in the edge it is visited,
  with one it is put among the waiting join nodes (it must not be there already) and
  goes through the join step. A successor named before gets \<open>jw\<close> appended to its
  list (\<open>jw\<close> must not be in it) and goes through the join step if it is a waiting
  join node. The join step records the ID of \<open>jw\<close> in \<open>predecessorsFinished\<close> of the
  successor; with more IDs than \<open>predecessorNumber\<close> it raises AssertionError, with
  fewer the successor stays waiting, and with as many the successor leaves the
  waiting join nodes and is visited.
\<close>

theorem buildToilState_visit:
  "(readyToProcess (objs l jw) \<longrightarrow>
      buildToilState (Suc depth) jobCache jw l =
        Ok () (l\<lparr>objs := (objs l)(jw := (objs l jw)
                   \<lparr>command := (case checkpoint (objs l jw) of None \<Rightarrow> command (objs l jw)
                                | Some c \<Rightarrow> Some c)\<rparr>),
                 toilState := (toilState l)
                   \<lparr>updatedJobs := insert (jw, 0) (updatedJobs (toilState l))\<rparr>\<rparr>))
   \<and> (\<not> readyToProcess (objs l jw) \<longrightarrow>
      buildToilState (Suc depth) jobCache jw l =
        buildSuccessors (buildToilState depth jobCache) jobCache jw (last (stack (objs l jw)))
          (l\<lparr>toilState := (toilState l)\<lparr>successorCounts := (successorCounts (toilState l))
               (jobStoreID (objs l jw) \<mapsto> int (length (last (stack (objs l jw)))))\<rparr>\<rparr>)
      \<and> (\<forall>l'. buildToilState (Suc depth) jobCache jw l = Ok () l' \<longrightarrow>
            jobStoreID (objs l jw) \<in> dom (successorCounts (toilState l'))
            \<and> (\<forall>t \<in> set (last (stack (objs l jw))).
                  \<exists>ps. successorJobStoreIDToPredecessorJobs (toilState l') (succID t) = Some ps
                       \<and> jw \<in> set ps)))
   \<and> (\<forall>lx. buildSuccessors (buildToilState depth jobCache) jobCache jw [] lx = Ok () lx)
   \<and> (\<forall>ts t lx. buildSuccessors (buildToilState depth jobCache) jobCache jw (ts @ [t]) lx =
         (case buildSuccessors (buildToilState depth jobCache) jobCache jw ts lx of
            Err e l1 \<Rightarrow> Err e l1
          | Ok u l1 \<Rightarrow> buildSuccessor (buildToilState depth jobCache) jobCache jw t l1))
   \<and> (\<forall>t lx. successorJobStoreIDToPredecessorJobs (toilState lx) (succID t) = None \<longrightarrow>
         buildSuccessor (buildToilState depth jobCache) jobCache jw t lx =
           (case getJob jobCache (succID t)
                   (lx\<lparr>toilState := (toilState lx)\<lparr>successorJobStoreIDToPredecessorJobs :=
                       (successorJobStoreIDToPredecessorJobs (toilState lx))(succID t \<mapsto> [jw])\<rparr>\<rparr>) of
              Err e l2 \<Rightarrow> Err e l2
            | Ok a l2 \<Rightarrow>
                if succPred t = None then buildToilState depth jobCache a l2
                else if succID t \<in> dom (jobsToBeScheduledWithMultiplePredecessors (toilState l2))
                then Err AssertionError l2
                else processSuccessorWithMultiplePredecessors (buildToilState depth jobCache) jw
                       (succID t) a
                       (l2\<lparr>toilState := (toilState l2)\<lparr>jobsToBeScheduledWithMultiplePredecessors :=
                           (jobsToBeScheduledWithMultiplePredecessors (toilState l2))
                             (succID t \<mapsto> a)\<rparr>\<rparr>)))
   \<and> (\<forall>t lx preds. successorJobStoreIDToPredecessorJobs (toilState lx) (succID t) = Some preds \<longrightarrow>
         buildSuccessor (buildToilState depth jobCache) jobCache jw t lx =
           (if jw \<in> set preds then Err AssertionError lx
            else case jobsToBeScheduledWithMultiplePredecessors (toilState lx) (succID t) of
                   None \<Rightarrow>
                     Ok () (lx\<lparr>toilState := (toilState lx)\<lparr>successorJobStoreIDToPredecessorJobs :=
                         (successorJobStoreIDToPredecessorJobs (toilState lx))
                           (succID t \<mapsto> preds @ [jw])\<rparr>\<rparr>)
                 | Some a \<Rightarrow>
                     processSuccessorWithMultiplePredecessors (buildToilState depth jobCache) jw
                       (succID t) a
                       (lx\<lparr>toilState := (toilState lx)\<lparr>successorJobStoreIDToPredecessorJobs :=
                           (successorJobStoreIDToPredecessorJobs (toilState lx))
                             (succID t \<mapsto> preds @ [jw])\<rparr>\<rparr>)))
   \<and> (\<forall>sid a lx.
         processSuccessorWithMultiplePredecessors (buildToilState depth jobCache) jw sid a lx =
           (if predecessorNumber (objs lx a)
                 < int (fcard (finsert (jobStoreID (objs lx jw)) (predecessorsFinished (objs lx a))))
            then Err AssertionError
                   (lx\<lparr>objs := (objs lx)(a := (objs lx a)\<lparr>predecessorsFinished :=
                         finsert (jobStoreID (objs lx jw)) (predecessorsFinished (objs lx a))\<rparr>)\<rparr>)
            else if int (fcard (finsert (jobStoreID (objs lx jw)) (predecessorsFinished (objs lx a))))
                      < predecessorNumber (objs lx a)
            then Ok ()
                   (lx\<lparr>objs := (objs lx)(a := (objs lx a)\<lparr>predecessorsFinished :=
                         finsert (jobStoreID (objs lx jw)) (predecessorsFinished (objs lx a))\<rparr>)\<rparr>)
            else if jobsToBeScheduledWithMultiplePredecessors (toilState lx) sid = None
            then Err KeyError
                   (lx\<lparr>objs := (objs lx)(a := (objs lx a)\<lparr>predecessorsFinished :=
                         finsert (jobStoreID (objs lx jw)) (predecessorsFinished (objs lx a))\<rparr>)\<rparr>)
            else buildToilState depth jobCache a
                   (lx\<lparr>objs := (objs lx)(a := (objs lx a)\<lparr>predecessorsFinished :=
                         finsert (jobStoreID (objs lx jw)) (predecessorsFinished (objs lx a))\<rparr>),
                      toilState := (toilState lx)\<lparr>jobsToBeScheduledWithMultiplePredecessors :=
                         (jobsToBeScheduledWithMultiplePredecessors (toilState lx))(sid := None)\<rparr>\<rparr>)))"
proof -
  have ready: "readyToProcess (objs l jw) \<longrightarrow>
      buildToilState (Suc depth) jobCache jw l =
        Ok () (l\<lparr>objs := (objs l)(jw := (objs l jw)
                   \<lparr>command := (case checkpoint (objs l jw) of None \<Rightarrow> command (objs l jw)
                                | Some c \<Rightarrow> Some c)\<rparr>),
                 toilState := (toilState l)
                   \<lparr>updatedJobs := insert (jw, 0) (updatedJobs (toilState l))\<rparr>\<rparr>)"
  proof
    assume r: "readyToProcess (objs l jw)"
    have "(objs l)(jw := (objs l jw)\<lparr>command := command (objs l jw)\<rparr>) = objs l"
      by (simp add: fun_eq_iff)
    with r show "buildToilState (Suc depth) jobCache jw l =
        Ok () (l\<lparr>objs := (objs l)(jw := (objs l jw)
                   \<lparr>command := (case checkpoint (objs l jw) of None \<Rightarrow> command (objs l jw)
                                | Some c \<Rightarrow> Some c)\<rparr>),
                 toilState := (toilState l)
                   \<lparr>updatedJobs := insert (jw, 0) (updatedJobs (toilState l))\<rparr>\<rparr>)"
      by (cases "checkpoint (objs l jw)") (simp_all add: Let_def)
  qed
  let ?l1 = "l\<lparr>toilState := (toilState l)\<lparr>successorCounts := (successorCounts (toilState l))
               (jobStoreID (objs l jw) \<mapsto> int (length (last (stack (objs l jw)))))\<rparr>\<rparr>"
  have waiting: "\<not> readyToProcess (objs l jw) \<longrightarrow>
      buildToilState (Suc depth) jobCache jw l =
        buildSuccessors (buildToilState depth jobCache) jobCache jw (last (stack (objs l jw))) ?l1
      \<and> (\<forall>l'. buildToilState (Suc depth) jobCache jw l = Ok () l' \<longrightarrow>
            jobStoreID (objs l jw) \<in> dom (successorCounts (toilState l'))
            \<and> (\<forall>t \<in> set (last (stack (objs l jw))).
                  \<exists>ps. successorJobStoreIDToPredecessorJobs (toilState l') (succID t) = Some ps
                       \<and> jw \<in> set ps))"
  proof
    assume False: "\<not> readyToProcess (objs l jw)"
    have rec: "\<forall>a l. predsGrow l (stateOf (buildToilState depth jobCache a l))"
      using buildToilState_grow by blast
    have e: "buildToilState (Suc depth) jobCache jw l =
        buildSuccessors (buildToilState depth jobCache) jobCache jw (last (stack (objs l jw))) ?l1"
      using False by (simp add: Let_def)
    note G = buildSuccessors_grow[OF rec, of ?l1 jobCache jw "last (stack (objs l jw))"]
    have "\<forall>l'. buildToilState (Suc depth) jobCache jw l = Ok () l' \<longrightarrow>
            jobStoreID (objs l jw) \<in> dom (successorCounts (toilState l'))
            \<and> (\<forall>t \<in> set (last (stack (objs l jw))).
                  \<exists>ps. successorJobStoreIDToPredecessorJobs (toilState l') (succID t) = Some ps
                       \<and> jw \<in> set ps)"
    proof (intro allI impI)
      fix l' assume ok: "buildToilState (Suc depth) jobCache jw l = Ok () l'"
      with e have ok1: "buildSuccessors (buildToilState depth jobCache) jobCache jw
                        (last (stack (objs l jw))) ?l1 = Ok () l'" by simp
      with G have g: "predsGrow ?l1 l'" by (simp add: stateOf_def)
      then have "dom (successorCounts (toilState ?l1)) \<subseteq> dom (successorCounts (toilState l'))"
        unfolding predsGrow_def by blast
      then have d: "jobStoreID (objs l jw) \<in> dom (successorCounts (toilState l'))" by auto
      from G ok1 have "\<forall>t \<in> set (last (stack (objs l jw))).
                  \<exists>ps. successorJobStoreIDToPredecessorJobs (toilState l') (succID t) = Some ps
                       \<and> jw \<in> set ps" by blast
      with d show "jobStoreID (objs l jw) \<in> dom (successorCounts (toilState l'))
            \<and> (\<forall>t \<in> set (last (stack (objs l jw))).
                  \<exists>ps. successorJobStoreIDToPredecessorJobs (toilState l') (succID t) = Some ps
                       \<and> jw \<in> set ps)" by blast
    qed
    with e show "buildToilState (Suc depth) jobCache jw l =
        buildSuccessors (buildToilState depth jobCache) jobCache jw (last (stack (objs l jw))) ?l1
      \<and> (\<forall>l'. buildToilState (Suc depth) jobCache jw l = Ok () l' \<longrightarrow>
            jobStoreID (objs l jw) \<in> dom (successorCounts (toilState l'))
            \<and> (\<forall>t \<in> set (last (stack (objs l jw))).
                  \<exists>ps. successorJobStoreIDToPredecessorJobs (toilState l') (succID t) = Some ps
                       \<and> jw \<in> set ps))" by blast
  qed
  show ?thesis
    apply (intro conjI)
         apply (rule ready)
        apply (rule waiting)
       apply simp
      apply (intro allI, rule buildSuccessors_snoc)
     apply (intro allI impI, erule buildSuccessor_first)
    apply (intro allI impI, erule buildSuccessor_later)
    apply (intro allI, rule processJoin_outcome)
    done
qed

theorem buildToilState_visit_witness:
  "\<not> readyToProcess (objs S2_leader 0)
   \<and> set (last (stack (objs S2_leader 0))) = {(''A'', 1, 1, 1, False, None), (''B'', 1, 1, 1, False, None)}
   \<and> buildToilState 3 None 0 S2_leader = Ok () S2_built
   \<and> ''R'' \<in> dom (successorCounts (toilState S2_built))
   \<and> (\<exists>ps. successorJobStoreIDToPredecessorJobs (toilState S2_built) ''A'' = Some ps \<and> 0 \<in> set ps)
   \<and> (\<exists>ps. successorJobStoreIDToPredecessorJobs (toilState S2_built) ''B'' = Some ps \<and> 0 \<in> set ps)
   \<and> successorJobStoreIDToPredecessorJobs (toilState S2_atA) ''C'' = None
   \<and> buildSuccessor (buildToilState 1 None) None 1 (''C'', 1, 1, 1, False, Some ''A'') S2_atA
        = Ok () S2_afterA
   \<and> predecessorsFinished (objs S2_afterA 2) = {|''A''|}
   \<and> jobsToBeScheduledWithMultiplePredecessors (toilState S2_afterA) ''C'' = Some 2
   \<and> successorJobStoreIDToPredecessorJobs (toilState S2_atB) ''C'' = Some [1]
   \<and> buildSuccessor (buildToilState 1 None) None 3 (''C'', 1, 1, 1, False, Some ''B'') S2_atB
        = Ok () S2_built
   \<and> predecessorsFinished (objs S2_built 2) = {|''A'', ''B''|}
   \<and> jobsToBeScheduledWithMultiplePredecessors (toilState S2_built) ''C'' = None
   \<and> updatedJobs (toilState S2_built) = {(2, 0)}
   \<and> readyToProcess (objs S2_released 2)
   \<and> buildToilState 1 None 2 S2_released = Ok () S2_built"
proof -
  note first = buildToilState_visit[THEN conjunct2, THEN conjunct2, THEN conjunct2, THEN conjunct2,
      THEN conjunct1, rule_format]
  note later = buildToilState_visit[THEN conjunct2, THEN conjunct2, THEN conjunct2, THEN conjunct2,
      THEN conjunct2, THEN conjunct1, rule_format]
  note join = buildToilState_visit[THEN conjunct2, THEN conjunct2, THEN conjunct2, THEN conjunct2,
      THEN conjunct2, THEN conjunct2, rule_format]
  have n: "\<not> readyToProcess (objs S2_leader 0)"
    by (simp add: S2_defs scenario_defs readyToProcess_def)
  have s: "set (last (stack (objs S2_leader 0))) = {(''A'', 1, 1, 1, False, None), (''B'', 1, 1, 1, False, None)}"
    by (simp add: S2_defs scenario_defs)
  have i: "jobStoreID (objs S2_leader 0) = ''R''"
    by (simp add: S2_defs scenario_defs)
  have b: "buildToilState (Suc 2) None 0 S2_leader = Ok () S2_built"
    using S2_build by (simp add: eval_nat_numeral)
  from buildToilState_visit[of S2_leader 0 2 None, THEN conjunct2, THEN conjunct1] n b s i
  have A: "''R'' \<in> dom (successorCounts (toilState S2_built))
      \<and> (\<exists>ps. successorJobStoreIDToPredecessorJobs (toilState S2_built) ''A'' = Some ps \<and> 0 \<in> set ps)
      \<and> (\<exists>ps. successorJobStoreIDToPredecessorJobs (toilState S2_built) ''B'' = Some ps \<and> 0 \<in> set ps)"
    by (simp add: succID_def)
  have stA: "successorJobStoreIDToPredecessorJobs (toilState S2_atA) (succID (''C'', 1, 1, 1, False, Some ''A'')) = None"
    by (simp add: S2_states S2_defs scenario_defs succID_def)
  have r: "readyToProcess (objs S2_released 2)"
    by (simp add: S2_states S2_defs scenario_defs readyToProcess_def)
  have c: "checkpoint (objs S2_released 2) = None"
    by (simp add: S2_states S2_defs scenario_defs)
  have t: "(objs S2_released)(2 := (objs S2_released 2)\<lparr>command := command (objs S2_released 2)\<rparr>) = objs S2_released"
    by (simp add: fun_eq_iff)
  have u: "updatedJobs (toilState S2_released) = {}"
    by (simp add: S2_states S2_defs scenario_defs)
  from buildToilState_visit[of S2_released 2 0 None, THEN conjunct1] r c t u
  have V: "buildToilState (Suc 0) None 2 S2_released = Ok () S2_built"
    by (simp add: S2_built_def)
  have E1: "buildSuccessor (buildToilState (Suc 0) None) None 1 (''C'', 1, 1, 1, False, Some ''A'') S2_atA
        = Ok () S2_afterA"
    unfolding first[of S2_atA "(''C'', 1, 1, 1, False, Some ''A'')" "Suc 0" None 1, OF stA]
      join[of "Suc 0" None 1]
    by (simp add: S2_states S2_defs scenario_defs getJob_def jobStore_load_def succID_def succPred_def
          fcard_finsert_if fcard_fempty fun_upd_twist del: buildToilState.simps)
  have stB: "successorJobStoreIDToPredecessorJobs (toilState S2_atB) (succID (''C'', 1, 1, 1, False, Some ''B'')) = Some [1]"
    by (simp add: S2_states S2_defs scenario_defs succID_def)
  have rel: "S2_atB\<lparr>objs := (objs S2_atB)(2 := (objs S2_atB 2)\<lparr>predecessorsFinished :=
                   finsert (jobStoreID (objs S2_atB 3)) (predecessorsFinished (objs S2_atB 2))\<rparr>),
              toilState := (toilState S2_atB)
                \<lparr>successorJobStoreIDToPredecessorJobs :=
                   (successorJobStoreIDToPredecessorJobs (toilState S2_atB))(''C'' \<mapsto> [1] @ [3]),
                 jobsToBeScheduledWithMultiplePredecessors :=
                   (jobsToBeScheduledWithMultiplePredecessors (toilState S2_atB))(''C'' := None)\<rparr>\<rparr>
             = S2_released"
    by (simp add: S2_states S2_defs scenario_defs fun_upd_twist finsert_commute)
  have E2: "buildSuccessor (buildToilState (Suc 0) None) None 3 (''C'', 1, 1, 1, False, Some ''B'') S2_atB
        = Ok () S2_built"
    unfolding later[of S2_atB "(''C'', 1, 1, 1, False, Some ''B'')" "[1]" "Suc 0" None 3, OF stB]
      join[of "Suc 0" None 3]
    using rel V
    by (simp add: S2_states S2_defs scenario_defs succID_def
          fcard_finsert_if fcard_fempty fun_upd_twist finsert_commute del: buildToilState.simps)
  have F: "predecessorsFinished (objs S2_afterA 2) = {|''A''|}"
    "jobsToBeScheduledWithMultiplePredecessors (toilState S2_afterA) ''C'' = Some 2"
    "predecessorsFinished (objs S2_built 2) = {|''A'', ''B''|}"
    "jobsToBeScheduledWithMultiplePredecessors (toilState S2_built) ''C'' = None"
    "updatedJobs (toilState S2_built) = {(2, 0)}"
    by (simp_all add: S2_states S2_defs scenario_defs)
  from n s b A stA E1 F stB E2 r V show ?thesis
    by (simp add: eval_nat_numeral succID_def del: buildToilState.simps)
qed


subsection \<open>Join nodes are released when all their predecessors are recorded\<close>

lemma joinInvD1:
  "joinInv C r l \<Longrightarrow> jobsToBeScheduledWithMultiplePredecessors (toilState l) sid = Some a \<Longrightarrow>
     known C r l a \<and> (\<forall>rs. (a, rs) \<notin> updatedJobs (toilState l))
     \<and> int (fcard (predecessorsFinished (objs l a))) < predecessorNumber (objs l a)"
  unfolding joinInv_def joinsHeld_def by blast

lemma joinInvD2:
  "joinInv C r l \<Longrightarrow> jobsToBeScheduledWithMultiplePredecessors (toilState l) sid = Some a \<Longrightarrow>
     jobsToBeScheduledWithMultiplePredecessors (toilState l) sid' = Some a \<Longrightarrow> sid = sid'"
  unfolding joinInv_def by blast

lemma joinInvD3:
  "joinInv C r l \<Longrightarrow> (a, rs) \<in> updatedJobs (toilState l) \<Longrightarrow> known C r l a"
  unfolding joinInv_def by blast

lemma joinInvD4:
  "joinInv C r l \<Longrightarrow> successorJobStoreIDToPredecessorJobs (toilState l) sid = Some ps \<Longrightarrow>
     b \<in> set ps \<Longrightarrow>
     known C r l b \<and> b \<notin> ran (jobsToBeScheduledWithMultiplePredecessors (toilState l))"
  unfolding joinInv_def by blast

lemma joinInvI:
  assumes "\<And>sid a. jobsToBeScheduledWithMultiplePredecessors (toilState l) sid = Some a \<Longrightarrow>
     known C r l a \<and> (\<forall>rs. (a, rs) \<notin> updatedJobs (toilState l))
     \<and> int (fcard (predecessorsFinished (objs l a))) < predecessorNumber (objs l a)"
    and "\<And>sid sid' a. jobsToBeScheduledWithMultiplePredecessors (toilState l) sid = Some a \<Longrightarrow>
     jobsToBeScheduledWithMultiplePredecessors (toilState l) sid' = Some a \<Longrightarrow> sid = sid'"
    and "\<And>a rs. (a, rs) \<in> updatedJobs (toilState l) \<Longrightarrow> known C r l a"
    and "\<And>sid ps b. successorJobStoreIDToPredecessorJobs (toilState l) sid = Some ps \<Longrightarrow>
     b \<in> set ps \<Longrightarrow>
     known C r l b \<and> b \<notin> ran (jobsToBeScheduledWithMultiplePredecessors (toilState l))"
  shows "joinInv C r l"
  unfolding joinInv_def joinsHeld_def using assms by blast

lemma known_cong:
  "nextAddr l' = nextAddr l \<Longrightarrow>
   dom (successorJobStoreIDToPredecessorJobs (toilState l'))
     = dom (successorJobStoreIDToPredecessorJobs (toilState l)) \<Longrightarrow>
   known C r l' a = known C r l a"
  by (cases C) (simp_all add: known_def)

lemma known_named:
  "known C r l a \<Longrightarrow>
   known C r (l\<lparr>toilState := (toilState l)\<lparr>successorJobStoreIDToPredecessorJobs :=
               (successorJobStoreIDToPredecessorJobs (toilState l))(sid \<mapsto> ps)\<rparr>\<rparr>) a"
  by (cases C) (auto simp: known_def)

lemma knownKept_refl [simp]: "knownKept C r l l"
  by (simp add: knownKept_def)

lemma knownKept_trans: "knownKept C r l l1 \<Longrightarrow> knownKept C r l1 l2 \<Longrightarrow> knownKept C r l l2"
  unfolding knownKept_def by blast

lemma knownKept_same:
  assumes "\<And>b. known C r l b \<Longrightarrow> known C r l' b"
    and "ran (jobsToBeScheduledWithMultiplePredecessors (toilState l'))
          \<subseteq> ran (jobsToBeScheduledWithMultiplePredecessors (toilState l))"
  shows "knownKept C r l l'"
  using assms unfolding knownKept_def by blast

lemma joinInv_cong:
  assumes "objs l' = objs l" "nextAddr l' = nextAddr l"
    "successorJobStoreIDToPredecessorJobs (toilState l') = successorJobStoreIDToPredecessorJobs (toilState l)"
    "jobsToBeScheduledWithMultiplePredecessors (toilState l') = jobsToBeScheduledWithMultiplePredecessors (toilState l)"
    "updatedJobs (toilState l') = updatedJobs (toilState l)"
  shows "joinInv C r l' = joinInv C r l"
proof -
  have "\<And>a. known C r l' a = known C r l a" by (rule known_cong) (simp_all add: assms)
  with assms show ?thesis by (simp add: joinInv_def joinsHeld_def)
qed

lemma joinInv_named:
  assumes inv: "joinInv C r l"
    and ps: "\<And>b. b \<in> set ps \<Longrightarrow>
       known C r l b \<and> b \<notin> ran (jobsToBeScheduledWithMultiplePredecessors (toilState l))"
  shows "joinInv C r (l\<lparr>toilState := (toilState l)\<lparr>successorJobStoreIDToPredecessorJobs :=
               (successorJobStoreIDToPredecessorJobs (toilState l))(sid \<mapsto> ps)\<rparr>\<rparr>)"
    (is "joinInv C r ?l1")
proof (rule joinInvI)
  fix s b assume "jobsToBeScheduledWithMultiplePredecessors (toilState ?l1) s = Some b"
  then have b: "jobsToBeScheduledWithMultiplePredecessors (toilState l) s = Some b" by simp
  from joinInvD1[OF inv b] known_named[of C r l b sid ps]
  show "known C r ?l1 b \<and> (\<forall>rs. (b, rs) \<notin> updatedJobs (toilState ?l1))
          \<and> int (fcard (predecessorsFinished (objs ?l1 b))) < predecessorNumber (objs ?l1 b)"
    by simp
next
  fix s s' b
  assume "jobsToBeScheduledWithMultiplePredecessors (toilState ?l1) s = Some b"
    and "jobsToBeScheduledWithMultiplePredecessors (toilState ?l1) s' = Some b"
  then have "jobsToBeScheduledWithMultiplePredecessors (toilState l) s = Some b"
    "jobsToBeScheduledWithMultiplePredecessors (toilState l) s' = Some b" by simp_all
  then show "s = s'" by (rule joinInvD2[OF inv])
next
  fix b rs assume "(b, rs) \<in> updatedJobs (toilState ?l1)"
  then have "(b, rs) \<in> updatedJobs (toilState l)" by simp
  from joinInvD3[OF inv this] show "known C r ?l1 b" by (rule known_named)
next
  fix s qs b
  assume q: "successorJobStoreIDToPredecessorJobs (toilState ?l1) s = Some qs" and b: "b \<in> set qs"
  have "known C r l b \<and> b \<notin> ran (jobsToBeScheduledWithMultiplePredecessors (toilState l))"
  proof (cases "s = sid")
    case True
    with q have "qs = ps" by simp
    with b ps show ?thesis by simp
  next
    case False
    with q have "successorJobStoreIDToPredecessorJobs (toilState l) s = Some qs" by simp
    from joinInvD4[OF inv this b] show ?thesis .
  qed
  then show "known C r ?l1 b \<and> b \<notin> ran (jobsToBeScheduledWithMultiplePredecessors (toilState ?l1))"
    using known_named[of C r l b sid ps] by simp
qed


lemma process_joinInv:
  assumes rec: "visitKeepsJoins C r recurse"
    and inv: "joinInv C r (l\<lparr>toilState := (toilState l)\<lparr>jobsToBeScheduledWithMultiplePredecessors :=
                  (jobsToBeScheduledWithMultiplePredecessors (toilState l))(sid := None)\<rparr>\<rparr>)"
    and pend: "jobsToBeScheduledWithMultiplePredecessors (toilState l) sid = Some S"
    and alloc: "known C r l S"
    and notUpd: "\<forall>rs. (S, rs) \<notin> updatedJobs (toilState l)"
    and fresh: "S \<notin> ran ((jobsToBeScheduledWithMultiplePredecessors (toilState l))(sid := None))"
    and notListed: "\<forall>s ps. successorJobStoreIDToPredecessorJobs (toilState l) s = Some ps \<longrightarrow> S \<notin> set ps"
    and ok: "processSuccessorWithMultiplePredecessors recurse jw sid S l = Ok () l'"
  shows "joinInv C r l' \<and> knownKept C r l l'"
proof -
  let ?jp = "jobsToBeScheduledWithMultiplePredecessors (toilState l)"
  define jid where "jid = jobStoreID (objs l jw)"
  define l1 where "l1 = l\<lparr>objs := (objs l)(S :=
                         (objs l S)\<lparr>predecessorsFinished := finsert jid (predecessorsFinished (objs l S))\<rparr>)\<rparr>"
  define n where "n = int (fcard (finsert jid (predecessorsFinished (objs l S))))"
  have l1_alt: "(if jid |\<notin>| predecessorsFinished (objs l S)
                then l\<lparr>objs := (objs l)(S :=
                         (objs l S)\<lparr>predecessorsFinished := finsert jid (predecessorsFinished (objs l S))\<rparr>)\<rparr>
                else l) = l1"
    by (auto simp: l1_def finsert_absorb)
  have e: "processSuccessorWithMultiplePredecessors recurse jw sid S l =
     (if \<not> n \<le> predecessorNumber (objs l S) then Err AssertionError l1
      else if n = predecessorNumber (objs l S) then
         recurse S (l1\<lparr>toilState := (toilState l1)\<lparr>jobsToBeScheduledWithMultiplePredecessors := ?jp(sid := None)\<rparr>\<rparr>)
      else Ok () l1)"
    unfolding processSuccessorWithMultiplePredecessors_def Let_def jid_def[symmetric] l1_alt
    using pend by (simp add: l1_def n_def dict_pop_def)
  have k1: "\<And>b. known C r l1 b = known C r l b" by (rule known_cong) (simp_all add: l1_def)
  have restS: "\<And>s a. s \<noteq> sid \<Longrightarrow> ?jp s = Some a \<Longrightarrow> a \<noteq> S"
  proof
    fix s a assume n: "s \<noteq> sid" and j: "?jp s = Some a" and "a = S"
    then have "(?jp(sid := None)) s = Some S" by simp
    then have "S \<in> ran (?jp(sid := None))" by (rule ranI)
    with fresh show False by simp
  qed
  let ?l0 = "l\<lparr>toilState := (toilState l)\<lparr>jobsToBeScheduledWithMultiplePredecessors := ?jp(sid := None)\<rparr>\<rparr>"
  have k0: "\<And>b. known C r ?l0 b = known C r l b" by (rule known_cong) simp_all
  have H: "\<And>s a. s \<noteq> sid \<Longrightarrow> ?jp s = Some a \<Longrightarrow>
      known C r l a \<and> (\<forall>rs. (a, rs) \<notin> updatedJobs (toilState l))
      \<and> int (fcard (predecessorsFinished (objs l a))) < predecessorNumber (objs l a)"
  proof -
    fix s a assume "s \<noteq> sid" "?jp s = Some a"
    then have "jobsToBeScheduledWithMultiplePredecessors (toilState ?l0) s = Some a" by simp
    from joinInvD1[OF inv this]
    show "known C r l a \<and> (\<forall>rs. (a, rs) \<notin> updatedJobs (toilState l))
      \<and> int (fcard (predecessorsFinished (objs l a))) < predecessorNumber (objs l a)"
      by (simp add: k0)
  qed
  have I: "\<And>s s' a. s \<noteq> sid \<Longrightarrow> s' \<noteq> sid \<Longrightarrow> ?jp s = Some a \<Longrightarrow> ?jp s' = Some a \<Longrightarrow> s = s'"
  proof -
    fix s s' a assume "s \<noteq> sid" "s' \<noteq> sid" "?jp s = Some a" "?jp s' = Some a"
    then have "jobsToBeScheduledWithMultiplePredecessors (toilState ?l0) s = Some a"
      "jobsToBeScheduledWithMultiplePredecessors (toilState ?l0) s' = Some a" by simp_all
    then show "s = s'" by (rule joinInvD2[OF inv])
  qed
  have U: "\<And>a rs. (a, rs) \<in> updatedJobs (toilState l) \<Longrightarrow> known C r l a"
  proof -
    fix a rs assume "(a, rs) \<in> updatedJobs (toilState l)"
    then have "(a, rs) \<in> updatedJobs (toilState ?l0)" by simp
    from joinInvD3[OF inv this] show "known C r l a" by (simp add: k0)
  qed
  have L: "\<And>s ps b. successorJobStoreIDToPredecessorJobs (toilState l) s = Some ps \<Longrightarrow> b \<in> set ps \<Longrightarrow>
      known C r l b \<and> b \<notin> ran (?jp(sid := None))"
  proof -
    fix s ps b
    assume "successorJobStoreIDToPredecessorJobs (toilState l) s = Some ps" and b: "b \<in> set ps"
    then have "successorJobStoreIDToPredecessorJobs (toilState ?l0) s = Some ps" by simp
    from joinInvD4[OF inv this b] show "known C r l b \<and> b \<notin> ran (?jp(sid := None))"
      by (simp add: k0)
  qed
  show ?thesis
  proof (cases "n = predecessorNumber (objs l S)")
    case True
    let ?l2 = "l1\<lparr>toilState := (toilState l1)\<lparr>jobsToBeScheduledWithMultiplePredecessors := ?jp(sid := None)\<rparr>\<rparr>"
    have k2: "\<And>b. known C r ?l2 b = known C r l b" by (rule known_cong) (simp_all add: l1_def)
    from True e ok have r: "recurse S ?l2 = Ok () l'" by simp
    have inv2: "joinInv C r ?l2"
    proof (rule joinInvI)
      fix s a assume "jobsToBeScheduledWithMultiplePredecessors (toilState ?l2) s = Some a"
      then have a: "s \<noteq> sid" "?jp s = Some a" by (simp_all split: if_splits)
      from a have ne: "a \<noteq> S" by (rule restS)
      from H[OF a] ne show "known C r ?l2 a \<and> (\<forall>rs. (a, rs) \<notin> updatedJobs (toilState ?l2))
          \<and> int (fcard (predecessorsFinished (objs ?l2 a))) < predecessorNumber (objs ?l2 a)"
        unfolding k2 by (simp add: l1_def)
    next
      fix s s' a
      assume "jobsToBeScheduledWithMultiplePredecessors (toilState ?l2) s = Some a"
        and "jobsToBeScheduledWithMultiplePredecessors (toilState ?l2) s' = Some a"
      then have "s \<noteq> sid" "s' \<noteq> sid" "?jp s = Some a" "?jp s' = Some a"
        by (simp_all split: if_splits)
      then show "s = s'" by (rule I)
    next
      fix a rs assume "(a, rs) \<in> updatedJobs (toilState ?l2)"
      then have "(a, rs) \<in> updatedJobs (toilState l)" by (simp add: l1_def)
      from U[OF this] show "known C r ?l2 a" unfolding k2 .
    next
      fix s ps b
      assume "successorJobStoreIDToPredecessorJobs (toilState ?l2) s = Some ps" and b: "b \<in> set ps"
      then have "successorJobStoreIDToPredecessorJobs (toilState l) s = Some ps" by (simp add: l1_def)
      from L[OF this b]
      show "known C r ?l2 b \<and> b \<notin> ran (jobsToBeScheduledWithMultiplePredecessors (toilState ?l2))"
        unfolding k2 by (simp add: l1_def)
    qed
    have "known C r ?l2 S" using alloc unfolding k2 .
    moreover have "S \<notin> ran (jobsToBeScheduledWithMultiplePredecessors (toilState ?l2))"
      using fresh by (simp add: l1_def)
    ultimately have post: "joinInv C r l' \<and> knownKept C r ?l2 l'"
      using rec[unfolded visitKeepsJoins_def, rule_format, OF inv2 _ _ r] by blast
    have "knownKept C r l ?l2"
    proof (rule knownKept_same)
      fix b assume "known C r l b" then show "known C r ?l2 b" unfolding k2 .
    next
      show "ran (jobsToBeScheduledWithMultiplePredecessors (toilState ?l2)) \<subseteq> ran ?jp"
        by (auto simp: ran_def l1_def split: if_splits)
    qed
    with post show ?thesis by (blast intro: knownKept_trans)
  next
    case False
    with e ok have lt: "n < predecessorNumber (objs l S)" and l': "l' = l1"
      by (auto split: if_splits)
    have "joinInv C r l1"
    proof (rule joinInvI)
      fix s a assume "jobsToBeScheduledWithMultiplePredecessors (toilState l1) s = Some a"
      then have a: "?jp s = Some a" by (simp add: l1_def)
      show "known C r l1 a \<and> (\<forall>rs. (a, rs) \<notin> updatedJobs (toilState l1))
          \<and> int (fcard (predecessorsFinished (objs l1 a))) < predecessorNumber (objs l1 a)"
      proof (cases "s = sid")
        case True
        with a pend have "a = S" by simp
        with lt alloc notUpd show ?thesis unfolding k1 by (simp add: l1_def n_def)
      next
        case False
        from restS[OF False a] H[OF False a] show ?thesis unfolding k1 by (simp add: l1_def)
      qed
    next
      fix s s' a
      assume "jobsToBeScheduledWithMultiplePredecessors (toilState l1) s = Some a"
        and "jobsToBeScheduledWithMultiplePredecessors (toilState l1) s' = Some a"
      then have a: "?jp s = Some a" and b: "?jp s' = Some a" by (simp_all add: l1_def)
      show "s = s'"
      proof (cases "s = sid")
        case True
        note s = this
        show ?thesis
        proof (cases "s' = sid")
          case True with s show ?thesis by simp
        next
          case False
          from s a pend have "a = S" by simp
          with restS[OF False b] show ?thesis by simp
        qed
      next
        case False
        note s = this
        show ?thesis
        proof (cases "s' = sid")
          case True
          with b pend have "a = S" by simp
          with restS[OF s a] show ?thesis by simp
        next
          case False
          from I[OF s False a b] show ?thesis .
        qed
      qed
    next
      fix a rs assume "(a, rs) \<in> updatedJobs (toilState l1)"
      then have "(a, rs) \<in> updatedJobs (toilState l)" by (simp add: l1_def)
      from U[OF this] show "known C r l1 a" unfolding k1 .
    next
      fix s ps b
      assume "successorJobStoreIDToPredecessorJobs (toilState l1) s = Some ps" and b: "b \<in> set ps"
      then have q: "successorJobStoreIDToPredecessorJobs (toilState l) s = Some ps" by (simp add: l1_def)
      from L[OF q b] have kb: "known C r l b" and nb: "b \<notin> ran (?jp(sid := None))" by blast+
      from notListed q b have "b \<noteq> S" by blast
      have "b \<notin> ran ?jp"
      proof
        assume "b \<in> ran ?jp"
        then obtain s' where s': "?jp s' = Some b" by (auto simp: ran_def)
        show False
        proof (cases "s' = sid")
          case True
          with s' pend \<open>b \<noteq> S\<close> show False by simp
        next
          case False
          with s' have "(?jp(sid := None)) s' = Some b" by simp
          then have "b \<in> ran (?jp(sid := None))" by (rule ranI)
          with nb show False by simp
        qed
      qed
      with kb show "known C r l1 b \<and> b \<notin> ran (jobsToBeScheduledWithMultiplePredecessors (toilState l1))"
        unfolding k1 by (simp add: l1_def)
    qed
    moreover have "knownKept C r l l1"
    proof (rule knownKept_same)
      fix b assume "known C r l b" then show "known C r l1 b" unfolding k1 .
    next
      show "ran (jobsToBeScheduledWithMultiplePredecessors (toilState l1))
          \<subseteq> ran (jobsToBeScheduledWithMultiplePredecessors (toilState l))" by (simp add: l1_def)
    qed
    ultimately show ?thesis using l' by simp
  qed
qed

lemma getJob_known:
  assumes cd: "cacheDistinct C r"
    and new: "successorJobStoreIDToPredecessorJobs (toilState l) sid = None"
    and ok: "getJob C sid (l\<lparr>toilState := (toilState l)\<lparr>successorJobStoreIDToPredecessorJobs :=
               (successorJobStoreIDToPredecessorJobs (toilState l))(sid \<mapsto> ps)\<rparr>\<rparr>) = Ok a l2"
  shows "\<not> known C r l a \<and> known C r l2 a
     \<and> (\<forall>b. known C r l b \<longrightarrow> known C r l2 b \<and> objs l2 b = objs l b)
     \<and> toilState l2 = (toilState l)\<lparr>successorJobStoreIDToPredecessorJobs :=
               (successorJobStoreIDToPredecessorJobs (toilState l))(sid \<mapsto> ps)\<rparr>"
proof (cases C)
  case None
  let ?l1 = "l\<lparr>toilState := (toilState l)\<lparr>successorJobStoreIDToPredecessorJobs :=
               (successorJobStoreIDToPredecessorJobs (toilState l))(sid \<mapsto> ps)\<rparr>\<rparr>"
  from ok None have ld: "jobStore_load sid ?l1 = Ok a l2" by (simp add: getJob_def)
  then obtain jw where rec: "js_records (jobStore l) sid = Some jw"
    by (cases "js_records (jobStore l) sid") (simp_all add: jobStore_load_def)
  with ld have l2: "l2 = ?l1\<lparr>objs := (objs l)(nextAddr l := jw), nextAddr := Suc (nextAddr l)\<rparr>"
    and a: "a = nextAddr l"
    by (auto simp: jobStore_load_def)
  show ?thesis using None by (auto simp: known_def l2 a)
next
  case (Some c)
  let ?l1 = "l\<lparr>toilState := (toilState l)\<lparr>successorJobStoreIDToPredecessorJobs :=
               (successorJobStoreIDToPredecessorJobs (toilState l))(sid \<mapsto> ps)\<rparr>\<rparr>"
  from ok Some have c: "c sid = Some a" and l2: "l2 = ?l1"
    by (cases "c sid"; simp add: getJob_def dict_getitem_def)+
  from cd Some have nr: "r \<notin> ran c"
    and inj: "\<And>s s' b. c s = Some b \<Longrightarrow> c s' = Some b \<Longrightarrow> s = s'"
    unfolding cacheDistinct_def by auto
  have "\<not> known C r l a"
  proof
    assume "known C r l a"
    with Some have "a = r \<or> (\<exists>s \<in> dom (successorJobStoreIDToPredecessorJobs (toilState l)). c s = Some a)"
      by (simp add: known_def)
    then show False
    proof
      assume "a = r"
      with c have "r \<in> ran c" by (auto intro: ranI)
      with nr show False by simp
    next
      assume "\<exists>s \<in> dom (successorJobStoreIDToPredecessorJobs (toilState l)). c s = Some a"
      then obtain s where s: "s \<in> dom (successorJobStoreIDToPredecessorJobs (toilState l))" "c s = Some a"
        by blast
      from inj[OF s(2) c] s(1) new show False by auto
    qed
  qed
  moreover have "known C r l2 a" using Some c by (auto simp: known_def l2)
  moreover have "\<forall>b. known C r l b \<longrightarrow> known C r l2 b \<and> objs l2 b = objs l b"
    using Some by (auto simp: known_def l2)
  ultimately show ?thesis by (simp add: l2)
qed

lemma getJob_joinInv:
  assumes cd: "cacheDistinct C r"
    and inv: "joinInv C r l"
    and new: "successorJobStoreIDToPredecessorJobs (toilState l) sid = None"
    and ps: "\<And>b. b \<in> set ps \<Longrightarrow>
       known C r l b \<and> b \<notin> ran (jobsToBeScheduledWithMultiplePredecessors (toilState l))"
    and ok: "getJob C sid (l\<lparr>toilState := (toilState l)\<lparr>successorJobStoreIDToPredecessorJobs :=
               (successorJobStoreIDToPredecessorJobs (toilState l))(sid \<mapsto> ps)\<rparr>\<rparr>) = Ok a l2"
  shows "joinInv C r l2 \<and> known C r l2 a
     \<and> a \<notin> ran (jobsToBeScheduledWithMultiplePredecessors (toilState l2))
     \<and> (\<forall>rs. (a, rs) \<notin> updatedJobs (toilState l2))
     \<and> (\<forall>s qs. successorJobStoreIDToPredecessorJobs (toilState l2) s = Some qs \<longrightarrow> a \<notin> set qs)
     \<and> knownKept C r l l2 \<and> \<not> known C r l a"
proof -
  from getJob_known[OF cd new ok]
  have nk: "\<not> known C r l a" and k2: "known C r l2 a"
    and mono: "\<And>b. known C r l b \<Longrightarrow> known C r l2 b"
    and same: "\<And>b. known C r l b \<Longrightarrow> objs l2 b = objs l b"
    and ts: "toilState l2 = (toilState l)\<lparr>successorJobStoreIDToPredecessorJobs :=
               (successorJobStoreIDToPredecessorJobs (toilState l))(sid \<mapsto> ps)\<rparr>"
    by blast+
  have jp2: "jobsToBeScheduledWithMultiplePredecessors (toilState l2)
      = jobsToBeScheduledWithMultiplePredecessors (toilState l)" by (simp add: ts)
  have uj2: "updatedJobs (toilState l2) = updatedJobs (toilState l)" by (simp add: ts)
  have listed: "\<And>s qs b. successorJobStoreIDToPredecessorJobs (toilState l2) s = Some qs \<Longrightarrow>
      b \<in> set qs \<Longrightarrow>
      known C r l b \<and> b \<notin> ran (jobsToBeScheduledWithMultiplePredecessors (toilState l))"
  proof -
    fix s qs b
    assume q: "successorJobStoreIDToPredecessorJobs (toilState l2) s = Some qs" and b: "b \<in> set qs"
    show "known C r l b \<and> b \<notin> ran (jobsToBeScheduledWithMultiplePredecessors (toilState l))"
    proof (cases "s = sid")
      case True
      with q have "qs = ps" by (simp add: ts)
      with b ps show ?thesis by simp
    next
      case False
      with q have "successorJobStoreIDToPredecessorJobs (toilState l) s = Some qs" by (simp add: ts)
      from joinInvD4[OF inv this b] show ?thesis .
    qed
  qed
  have "joinInv C r l2"
  proof (rule joinInvI)
    fix s b assume "jobsToBeScheduledWithMultiplePredecessors (toilState l2) s = Some b"
    then have b: "jobsToBeScheduledWithMultiplePredecessors (toilState l) s = Some b" by (simp add: jp2)
    from joinInvD1[OF inv b] have kb: "known C r l b"
      and nu: "\<forall>rs. (b, rs) \<notin> updatedJobs (toilState l)"
      and lt: "int (fcard (predecessorsFinished (objs l b))) < predecessorNumber (objs l b)"
      by blast+
    from mono[OF kb] nu lt same[OF kb]
    show "known C r l2 b \<and> (\<forall>rs. (b, rs) \<notin> updatedJobs (toilState l2))
          \<and> int (fcard (predecessorsFinished (objs l2 b))) < predecessorNumber (objs l2 b)"
      by (simp add: uj2)
  next
    fix s s' b
    assume "jobsToBeScheduledWithMultiplePredecessors (toilState l2) s = Some b"
      and "jobsToBeScheduledWithMultiplePredecessors (toilState l2) s' = Some b"
    then have "jobsToBeScheduledWithMultiplePredecessors (toilState l) s = Some b"
      "jobsToBeScheduledWithMultiplePredecessors (toilState l) s' = Some b" by (simp_all add: jp2)
    then show "s = s'" by (rule joinInvD2[OF inv])
  next
    fix b rs assume "(b, rs) \<in> updatedJobs (toilState l2)"
    then have "(b, rs) \<in> updatedJobs (toilState l)" by (simp add: uj2)
    from joinInvD3[OF inv this] show "known C r l2 b" by (rule mono)
  next
    fix s qs b
    assume "successorJobStoreIDToPredecessorJobs (toilState l2) s = Some qs" and "b \<in> set qs"
    from listed[OF this] mono
    show "known C r l2 b \<and> b \<notin> ran (jobsToBeScheduledWithMultiplePredecessors (toilState l2))"
      by (simp add: jp2)
  qed
  moreover have "a \<notin> ran (jobsToBeScheduledWithMultiplePredecessors (toilState l2))"
  proof
    assume "a \<in> ran (jobsToBeScheduledWithMultiplePredecessors (toilState l2))"
    then obtain s where "jobsToBeScheduledWithMultiplePredecessors (toilState l) s = Some a"
      by (auto simp: ran_def jp2)
    from joinInvD1[OF inv this] nk show False by simp
  qed
  moreover have "\<forall>rs. (a, rs) \<notin> updatedJobs (toilState l2)"
  proof (intro allI notI)
    fix rs assume "(a, rs) \<in> updatedJobs (toilState l2)"
    then have "(a, rs) \<in> updatedJobs (toilState l)" by (simp add: uj2)
    from joinInvD3[OF inv this] nk show False by simp
  qed
  moreover have "\<forall>s qs. successorJobStoreIDToPredecessorJobs (toilState l2) s = Some qs \<longrightarrow> a \<notin> set qs"
    using listed nk by blast
  moreover have "knownKept C r l l2"
    by (rule knownKept_same) (simp_all add: mono jp2)
  ultimately show ?thesis using k2 nk by blast
qed

lemma buildSuccessor_joinInv:
  assumes cd: "cacheDistinct C r"
    and rec: "visitKeepsJoins C r recurse"
    and inv: "joinInv C r l"
    and jwk: "known C r l jw"
    and jwn: "jw \<notin> ran (jobsToBeScheduledWithMultiplePredecessors (toilState l))"
    and ok: "buildSuccessor recurse C jw t l = Ok () l'"
  shows "joinInv C r l' \<and> knownKept C r l l'"
proof (cases "successorJobStoreIDToPredecessorJobs (toilState l) (succID t)")
  case None
  let ?l1 = "l\<lparr>toilState := (toilState l)\<lparr>successorJobStoreIDToPredecessorJobs :=
                      (successorJobStoreIDToPredecessorJobs (toilState l))
                        (succID t \<mapsto> [jw])\<rparr>\<rparr>"
  have one: "\<And>b. b \<in> set [jw] \<Longrightarrow>
       known C r l b \<and> b \<notin> ran (jobsToBeScheduledWithMultiplePredecessors (toilState l))"
    using jwk jwn by simp
  show ?thesis
  proof (cases "getJob C (succID t) ?l1")
    case (Err e l2)
    with None ok show ?thesis by (cases "succPred t") (simp_all add: buildSuccessor_def Let_def)
  next
    case (Ok a l2)
    from getJob_joinInv[OF cd inv None one Ok] have inv2: "joinInv C r l2" and k2: "known C r l2 a"
      and fr: "a \<notin> ran (jobsToBeScheduledWithMultiplePredecessors (toilState l2))"
      and nu2: "\<forall>rs. (a, rs) \<notin> updatedJobs (toilState l2)"
      and nl2: "\<forall>s qs. successorJobStoreIDToPredecessorJobs (toilState l2) s = Some qs \<longrightarrow> a \<notin> set qs"
      and kk: "knownKept C r l l2"
      and nk: "\<not> known C r l a"
      by blast+
    show ?thesis
    proof (cases "succPred t")
      case np: None
      with None Ok ok have r: "recurse a l2 = Ok () l'"
        by (simp add: buildSuccessor_def Let_def)
      from rec[unfolded visitKeepsJoins_def, rule_format, OF inv2 k2 fr r] kk
      show ?thesis by (blast intro: knownKept_trans)
    next
      case (Some pid)
      let ?l3 = "l2\<lparr>toilState := (toilState l2)\<lparr>jobsToBeScheduledWithMultiplePredecessors :=
                                  (jobsToBeScheduledWithMultiplePredecessors (toilState l2))
                                    (succID t \<mapsto> a)\<rparr>\<rparr>"
      from None Ok Some ok
      have nd: "succID t \<notin> dom (jobsToBeScheduledWithMultiplePredecessors (toilState l2))"
        and p: "processSuccessorWithMultiplePredecessors recurse jw (succID t) a ?l3 = Ok () l'"
        by (auto simp: buildSuccessor_def Let_def split: if_splits)
      from nd have rest: "(jobsToBeScheduledWithMultiplePredecessors (toilState ?l3))(succID t := None)
          = jobsToBeScheduledWithMultiplePredecessors (toilState l2)"
        by (auto simp: fun_eq_iff)
      let ?l0 = "?l3\<lparr>toilState := (toilState ?l3)\<lparr>jobsToBeScheduledWithMultiplePredecessors :=
                  (jobsToBeScheduledWithMultiplePredecessors (toilState ?l3))(succID t := None)\<rparr>\<rparr>"
      have "joinInv C r ?l0 = joinInv C r l2"
        by (rule joinInv_cong) (simp_all only: rest, simp_all)
      with inv2 have i0: "joinInv C r ?l0" by simp
      have k3: "\<And>b. known C r ?l3 b = known C r l2 b" by (rule known_cong) simp_all
      have pend: "jobsToBeScheduledWithMultiplePredecessors (toilState ?l3) (succID t) = Some a" by simp
      have al: "known C r ?l3 a" using k2 unfolding k3 .
      have nu: "\<forall>rs. (a, rs) \<notin> updatedJobs (toilState ?l3)" using nu2 by simp
      have fr3: "a \<notin> ran ((jobsToBeScheduledWithMultiplePredecessors (toilState ?l3))(succID t := None))"
        unfolding rest by (rule fr)
      have nl: "\<forall>s ps. successorJobStoreIDToPredecessorJobs (toilState ?l3) s = Some ps \<longrightarrow> a \<notin> set ps"
        using nl2 by simp
      from process_joinInv[OF rec i0 pend al nu fr3 nl p]
      have post: "joinInv C r l'" "knownKept C r ?l3 l'" by blast+
      have "knownKept C r l ?l3"
        unfolding knownKept_def
      proof (intro allI impI conjI)
        fix b assume kb: "known C r l b"
        with kk show "known C r ?l3 b" unfolding k3 knownKept_def by blast
        assume "b \<notin> ran (jobsToBeScheduledWithMultiplePredecessors (toilState l))"
        with kk kb have n2: "b \<notin> ran (jobsToBeScheduledWithMultiplePredecessors (toilState l2))"
          unfolding knownKept_def by blast
        from kb nk have "b \<noteq> a" by auto
        with n2 show "b \<notin> ran (jobsToBeScheduledWithMultiplePredecessors (toilState ?l3))"
          by (auto simp: ran_def split: if_splits)
      qed
      with post show ?thesis by (blast intro: knownKept_trans)
    qed
  qed
next
  case (Some preds)
  note sp = this
  show ?thesis
  proof (cases "jw \<in> set preds")
    case True
    with sp ok show ?thesis by (simp add: buildSuccessor_def Let_def)
  next
    case False
    let ?l1 = "l\<lparr>toilState := (toilState l)\<lparr>successorJobStoreIDToPredecessorJobs :=
                        (successorJobStoreIDToPredecessorJobs (toilState l))
                          (succID t \<mapsto> preds @ [jw])\<rparr>\<rparr>"
    have el: "\<And>b. b \<in> set (preds @ [jw]) \<Longrightarrow>
       known C r l b \<and> b \<notin> ran (jobsToBeScheduledWithMultiplePredecessors (toilState l))"
      using jwk jwn joinInvD4[OF inv sp] by auto
    have inv1: "joinInv C r ?l1" using inv el by (rule joinInv_named)
    have kk1: "knownKept C r l ?l1"
      by (rule knownKept_same) (simp_all add: known_named)
    show ?thesis
    proof (cases "jobsToBeScheduledWithMultiplePredecessors (toilState l) (succID t)")
      case None
      with sp False ok have "l' = ?l1" by (auto simp: buildSuccessor_def Let_def)
      with inv1 kk1 show ?thesis by simp
    next
      case (Some S)
      note pendS = this
      with sp False ok
      have p: "processSuccessorWithMultiplePredecessors recurse jw (succID t) S ?l1 = Ok () l'"
        by (auto simp: buildSuccessor_def Let_def)
      have pend: "jobsToBeScheduledWithMultiplePredecessors (toilState ?l1) (succID t) = Some S"
        using pendS by simp
      let ?l0 = "?l1\<lparr>toilState := (toilState ?l1)\<lparr>jobsToBeScheduledWithMultiplePredecessors :=
                    (jobsToBeScheduledWithMultiplePredecessors (toilState ?l1))(succID t := None)\<rparr>\<rparr>"
      have k0: "\<And>b. known C r ?l0 b = known C r ?l1 b" by (rule known_cong) simp_all
      have sub: "ran (jobsToBeScheduledWithMultiplePredecessors (toilState ?l0))
            \<subseteq> ran (jobsToBeScheduledWithMultiplePredecessors (toilState ?l1))"
        by (auto simp: ran_def split: if_splits)
      have i0: "joinInv C r ?l0"
      proof (rule joinInvI)
        fix s b assume "jobsToBeScheduledWithMultiplePredecessors (toilState ?l0) s = Some b"
        then have b: "jobsToBeScheduledWithMultiplePredecessors (toilState ?l1) s = Some b"
          by (simp split: if_splits)
        from joinInvD1[OF inv1 b] show "known C r ?l0 b \<and> (\<forall>rs. (b, rs) \<notin> updatedJobs (toilState ?l0))
            \<and> int (fcard (predecessorsFinished (objs ?l0 b))) < predecessorNumber (objs ?l0 b)"
          unfolding k0 by simp
      next
        fix s s' b
        assume "jobsToBeScheduledWithMultiplePredecessors (toilState ?l0) s = Some b"
          and "jobsToBeScheduledWithMultiplePredecessors (toilState ?l0) s' = Some b"
        then have "jobsToBeScheduledWithMultiplePredecessors (toilState ?l1) s = Some b"
          "jobsToBeScheduledWithMultiplePredecessors (toilState ?l1) s' = Some b"
          by (simp_all split: if_splits)
        then show "s = s'" by (rule joinInvD2[OF inv1])
      next
        fix b rs assume "(b, rs) \<in> updatedJobs (toilState ?l0)"
        then have "(b, rs) \<in> updatedJobs (toilState ?l1)" by simp
        from joinInvD3[OF inv1 this] show "known C r ?l0 b" unfolding k0 .
      next
        fix s ps b
        assume "successorJobStoreIDToPredecessorJobs (toilState ?l0) s = Some ps" and b: "b \<in> set ps"
        then have "successorJobStoreIDToPredecessorJobs (toilState ?l1) s = Some ps" by simp
        from joinInvD4[OF inv1 this b] sub
        show "known C r ?l0 b \<and> b \<notin> ran (jobsToBeScheduledWithMultiplePredecessors (toilState ?l0))"
          unfolding k0 by blast
      qed
      from joinInvD1[OF inv1 pend] have al: "known C r ?l1 S"
        and nu: "\<forall>rs. (S, rs) \<notin> updatedJobs (toilState ?l1)" by blast+
      have fr: "S \<notin> ran ((jobsToBeScheduledWithMultiplePredecessors (toilState ?l1))(succID t := None))"
      proof
        assume "S \<in> ran ((jobsToBeScheduledWithMultiplePredecessors (toilState ?l1))(succID t := None))"
        then obtain s where s: "s \<noteq> succID t"
          "jobsToBeScheduledWithMultiplePredecessors (toilState ?l1) s = Some S"
          by (auto simp: ran_def split: if_splits)
        from joinInvD2[OF inv1 s(2) pend] s(1) show False by simp
      qed
      have nl: "\<forall>s ps. successorJobStoreIDToPredecessorJobs (toilState ?l1) s = Some ps \<longrightarrow> S \<notin> set ps"
      proof (intro allI impI notI)
        fix s ps
        assume q: "successorJobStoreIDToPredecessorJobs (toilState ?l1) s = Some ps" and m: "S \<in> set ps"
        from joinInvD4[OF inv1 q m]
        have "S \<notin> ran (jobsToBeScheduledWithMultiplePredecessors (toilState ?l1))" by blast
        moreover from pend have "S \<in> ran (jobsToBeScheduledWithMultiplePredecessors (toilState ?l1))"
          by (rule ranI)
        ultimately show False by simp
      qed
      from process_joinInv[OF rec i0 pend al nu fr nl p] kk1 show ?thesis
        by (blast intro: knownKept_trans)
    qed
  qed
qed

lemma buildSuccessors_joinInv:
  assumes cd: "cacheDistinct C r" and rec: "visitKeepsJoins C r recurse"
  shows "joinInv C r l \<Longrightarrow> known C r l jw \<Longrightarrow>
     jw \<notin> ran (jobsToBeScheduledWithMultiplePredecessors (toilState l)) \<Longrightarrow>
     buildSuccessors recurse C jw ts l = Ok () l' \<Longrightarrow>
     joinInv C r l' \<and> knownKept C r l l'"
proof (induction ts arbitrary: l)
  case Nil
  then show ?case by simp
next
  case (Cons t ts)
  show ?case
  proof (cases "buildSuccessor recurse C jw t l")
    case (Err e l1)
    with Cons.prems show ?thesis by simp
  next
    case (Ok u l1)
    then have b: "buildSuccessor recurse C jw t l = Ok () l1" by simp
    from buildSuccessor_joinInv[OF cd rec Cons.prems(1,2,3) b]
    have i1: "joinInv C r l1" and kk: "knownKept C r l l1" by blast+
    from kk Cons.prems(2,3) have j1: "known C r l1 jw"
      "jw \<notin> ran (jobsToBeScheduledWithMultiplePredecessors (toilState l1))"
      unfolding knownKept_def by blast+
    from Ok Cons.prems(4) have "buildSuccessors recurse C jw ts l1 = Ok () l'" by simp
    from Cons.IH[OF i1 j1 this] kk show ?thesis by (blast intro: knownKept_trans)
  qed
qed

lemma buildToilState_joinInv:
  assumes cd: "cacheDistinct C r"
  shows "visitKeepsJoins C r (buildToilState depth C)"
proof (induction depth)
  case 0
  then show ?case by (simp add: visitKeepsJoins_def)
next
  case (Suc depth)
  show ?case
    unfolding visitKeepsJoins_def
  proof (intro allI impI)
    fix a l l'
    assume inv: "joinInv C r l" and al: "known C r l a"
      and fr: "a \<notin> ran (jobsToBeScheduledWithMultiplePredecessors (toilState l))"
      and ok: "buildToilState (Suc depth) C a l = Ok () l'"
    show "joinInv C r l' \<and> knownKept C r l l'"
    proof (cases "readyToProcess (objs l a)")
      case True
      define c where "c = (case checkpoint (objs l a) of None \<Rightarrow> command (objs l a) | Some x \<Rightarrow> Some x)"
      from True ok have l': "l' = l\<lparr>objs := (objs l)(a := (objs l a)\<lparr>command := c\<rparr>),
                 toilState := (toilState l)\<lparr>updatedJobs := insert (a, 0) (updatedJobs (toilState l))\<rparr>\<rparr>"
        by (cases "checkpoint (objs l a)") (auto simp: Let_def c_def)
      have k: "\<And>b. known C r l' b = known C r l b" by (rule known_cong) (simp_all add: l')
      have "joinInv C r l'"
      proof (rule joinInvI)
        fix s b assume "jobsToBeScheduledWithMultiplePredecessors (toilState l') s = Some b"
        then have b: "jobsToBeScheduledWithMultiplePredecessors (toilState l) s = Some b" by (simp add: l')
        then have "b \<in> ran (jobsToBeScheduledWithMultiplePredecessors (toilState l))" by (rule ranI)
        with fr have "b \<noteq> a" by auto
        with joinInvD1[OF inv b] show "known C r l' b \<and> (\<forall>rs. (b, rs) \<notin> updatedJobs (toilState l'))
          \<and> int (fcard (predecessorsFinished (objs l' b))) < predecessorNumber (objs l' b)"
          unfolding k by (simp add: l')
      next
        fix s s' b
        assume "jobsToBeScheduledWithMultiplePredecessors (toilState l') s = Some b"
          and "jobsToBeScheduledWithMultiplePredecessors (toilState l') s' = Some b"
        then have "jobsToBeScheduledWithMultiplePredecessors (toilState l) s = Some b"
          "jobsToBeScheduledWithMultiplePredecessors (toilState l) s' = Some b" by (simp_all add: l')
        then show "s = s'" by (rule joinInvD2[OF inv])
      next
        fix b rs assume "(b, rs) \<in> updatedJobs (toilState l')"
        then have "b = a \<or> (b, rs) \<in> updatedJobs (toilState l)" by (auto simp: l')
        with al joinInvD3[OF inv] show "known C r l' b" unfolding k by blast
      next
        fix s ps b
        assume "successorJobStoreIDToPredecessorJobs (toilState l') s = Some ps" and b: "b \<in> set ps"
        then have "successorJobStoreIDToPredecessorJobs (toilState l) s = Some ps" by (simp add: l')
        from joinInvD4[OF inv this b]
        show "known C r l' b \<and> b \<notin> ran (jobsToBeScheduledWithMultiplePredecessors (toilState l'))"
          unfolding k by (simp add: l')
      qed
      moreover have "knownKept C r l l'"
      proof (rule knownKept_same)
        fix b assume "known C r l b" then show "known C r l' b" unfolding k .
      next
        show "ran (jobsToBeScheduledWithMultiplePredecessors (toilState l'))
            \<subseteq> ran (jobsToBeScheduledWithMultiplePredecessors (toilState l))" by (simp add: l')
      qed
      ultimately show ?thesis by simp
    next
      case False
      let ?l1 = "l\<lparr>toilState := (toilState l)\<lparr>successorCounts := (successorCounts (toilState l))
               (jobStoreID (objs l a) \<mapsto> int (length (last (stack (objs l a)))))\<rparr>\<rparr>"
      have k1: "\<And>b. known C r ?l1 b = known C r l b" by (rule known_cong) simp_all
      have inv1: "joinInv C r ?l1" using inv joinInv_cong[of ?l1 l C r] by simp
      have a1: "known C r ?l1 a" using al unfolding k1 .
      have f1: "a \<notin> ran (jobsToBeScheduledWithMultiplePredecessors (toilState ?l1))" using fr by simp
      have kk: "knownKept C r l ?l1" by (rule knownKept_same) (simp_all add: k1)
      from False ok have "buildSuccessors (buildToilState depth C) C a (last (stack (objs l a))) ?l1 = Ok () l'"
        by (simp add: Let_def)
      from buildSuccessors_joinInv[OF cd Suc.IH inv1 a1 f1 this] kk show ?thesis
        by (blast intro: knownKept_trans)
    qed
  qed
qed






lemma ToilState_init_joinInv:
  assumes cd: "cacheDistinct C r" and root: "C = None \<longrightarrow> r < nextAddr l"
    and ok: "ToilState_init depth r C l = Ok () l'"
  shows "joinInv C r l'"
proof -
  let ?l0 = "l\<lparr>toilState := ToilState_fields\<rparr>"
  have inv0: "joinInv C r ?l0"
    by (rule joinInvI) (simp_all add: ToilState_fields_def)
  have k0: "known C r ?l0 r" using root by (cases C) (simp_all add: known_def)
  have f0: "r \<notin> ran (jobsToBeScheduledWithMultiplePredecessors (toilState ?l0))"
    by (simp add: ToilState_fields_def)
  from ok have b: "buildToilState depth C r ?l0 = Ok () l'" by (simp add: ToilState_init_def)
  from buildToilState_joinInv[OF cd, of depth, unfolded visitKeepsJoins_def, rule_format, OF inv0 k0 f0 b]
  show ?thesis by blast
qed









subsection \<open>The waiting join nodes and the wrappers in use\<close>

lemma useFrame_refl [simp]: "useFrame X l l"
  by (simp add: useFrame_def)

lemma useFrame_trans: "useFrame X l l1 \<Longrightarrow> useFrame X l1 l2 \<Longrightarrow> useFrame X l l2"
  unfolding useFrame_def by (auto; force)

lemma useFrame_mono: "useFrame X l l' \<Longrightarrow> X \<subseteq> Y \<Longrightarrow> useFrame Y l l'"
  unfolding useFrame_def by blast

lemma useFrame_absorb:
  "useFrame Y l l' \<Longrightarrow> (\<And>a. a \<in> Y \<Longrightarrow> inUse l a \<or> a \<in> X) \<Longrightarrow> useFrame X l l'"
  unfolding useFrame_def by blast

lemma useFrame_same:
  assumes "nextAddr l' = nextAddr l"
    and "jobsToBeScheduledWithMultiplePredecessors (toilState l')
         = jobsToBeScheduledWithMultiplePredecessors (toilState l)"
    and "\<And>a. inUse l' a \<Longrightarrow> inUse l a \<or> a \<in> X"
  shows "useFrame X l l'"
  using assms unfolding useFrame_def by auto

lemma useFrame_untouched:
  "nextAddr l' = nextAddr l \<Longrightarrow> toilState l' = toilState l \<Longrightarrow>
   serviceManager l' = serviceManager l \<Longrightarrow> useFrame X l l'"
  by (rule useFrame_same) (auto simp: inUse_def)

lemma joinsApart_frame:
  assumes "joinsApart X l" and "useFrame X l l'"
  shows "joinsApart X l'"
  using assms unfolding joinsApart_def useFrame_def
  by (metis leD le_trans not_le_imp_less order.strict_trans1)

lemma frame_bind:
  assumes "useFrame X l (stateOf r)"
    and "\<And>x l1. r = Ok x l1 \<Longrightarrow> useFrame X l1 (stateOf (g x l1))"
  shows "useFrame X l (stateOf (case r of Ok x l1 \<Rightarrow> g x l1 | Err e l1 \<Rightarrow> Err e l1))"
proof (cases r)
  case (Ok x l1)
  with assms(1) have "useFrame X l l1" by (simp add: stateOf_def)
  with assms(2)[OF Ok] Ok show ?thesis by (auto intro: useFrame_trans)
next
  case (Err e l1)
  with assms(1) show ?thesis by (simp add: stateOf_def)
qed

lemma stateOf_simps [simp]: "stateOf (Ok x l) = l" "stateOf (Err e l) = l"
  by (simp_all add: stateOf_def)

subsection \<open>Frames of the steps that leave the waiting join nodes alone\<close>

lemma environmentStep_frame: "useFrame X l (environmentStep env l)"
  by (rule useFrame_same) (auto simp: environmentStep_def inUse_def)

lemma killServices_frame: "useFrame X l (killServices svcs e l)"
  by (rule useFrame_same) (auto simp: killServices_def inUse_def)

lemma issueJob_frame: "useFrame X l (issueJob jid m c d p l)"
  by (rule useFrame_same) (auto simp: issueJob_def Let_def inUse_def)

lemma issueJobs_frame: "useFrame X l (issueJobs js l)"
proof (induction js arbitrary: l)
  case Nil
  show ?case by simp
next
  case (Cons j js)
  obtain jid m c d p where j: "j = (jid, m, c, d, p)" by (cases j)
  from issueJob_frame[of X l jid m c d p] Cons[of "issueJob jid m c d p l"]
  show ?case unfolding j by (auto intro: useFrame_trans)
qed

lemma jobStore_deleteFile_frame: "useFrame X l (jobStore_deleteFile f l)"
  by (rule useFrame_same) (auto simp: jobStore_deleteFile_def inUse_def split: option.splits)

lemma removeJobID_useFrame: "useFrame X l (stateOf (removeJobID b l))"
  by (rule useFrame_untouched) (auto simp: removeJobID_def Let_def split: option.splits)

lemma getNumberOfJobsIssued_frame: "useFrame X l (stateOf (getNumberOfJobsIssued l))"
  by (simp add: getNumberOfJobsIssued_def)

lemma exitCriterion_frame: "useFrame X l (stateOf (exitCriterion l))"
  by (simp add: exitCriterion_def getNumberOfJobsIssued_def)

lemma checkThreads_frame: "useFrame X l (stateOf (checkThreads env l))"
  by (simp add: checkThreads_def)

lemma consistencyCheck_frame: "useFrame X l (stateOf (consistencyCheck l))"
  by (simp add: consistencyCheck_def Let_def)

lemma updatePredecessor_useFrame: "useFrame (insert P X) l (stateOf (updatePredecessor P l))"
  by (rule useFrame_same)
    (auto simp: updatePredecessor_def Let_def inUse_def split: option.splits if_splits)

lemma updatePredecessors_useFrame: "useFrame (set ps \<union> X) l (stateOf (updatePredecessors ps l))"
proof (induction ps arbitrary: l)
  case Nil
  show ?case by simp
next
  case (Cons p ps)
  have a: "useFrame (set (p # ps) \<union> X) l (stateOf (updatePredecessor p l))"
    by (rule useFrame_mono[OF updatePredecessor_useFrame[of p X]]) auto
  have b: "\<And>l1. useFrame (set (p # ps) \<union> X) l1 (stateOf (updatePredecessors ps l1))"
    by (rule useFrame_mono[OF Cons]) auto
  show ?case unfolding updatePredecessors.simps
    by (rule frame_bind[OF a b])
qed

lemma updatePredecessorStatus_useFrame: "useFrame X l (stateOf (updatePredecessorStatus jid l))"
proof (cases "serviceJobStoreIDToPredecessorJob (toilState l) jid")
  case (Some P)
  then show ?thesis
    by (intro useFrame_same)
      (auto simp: updatePredecessorStatus_def Let_def inUse_def split: option.splits if_splits)
next
  case None
  note ns = this
  show ?thesis
  proof (cases "successorJobStoreIDToPredecessorJobs (toilState l) jid")
    case None
    with ns show ?thesis by (simp add: updatePredecessorStatus_def Let_def)
  next
    case (Some preds)
    let ?l1 = "l\<lparr>toilState := (toilState l)\<lparr>successorJobStoreIDToPredecessorJobs :=
                       (successorJobStoreIDToPredecessorJobs (toilState l))(jid := None)\<rparr>\<rparr>"
    have a: "useFrame X l ?l1"
      by (rule useFrame_same) (auto simp: inUse_def split: if_splits)
    have "useFrame (set preds \<union> X) ?l1 (stateOf (updatePredecessors preds ?l1))"
      by (rule updatePredecessors_useFrame)
    with a have "useFrame (set preds \<union> X) l (stateOf (updatePredecessors preds ?l1))"
      by (auto intro: useFrame_trans useFrame_mono)
    then have "useFrame X l (stateOf (updatePredecessors preds ?l1))"
      by (rule useFrame_absorb) (use Some in \<open>auto simp: inUse_def\<close>)
    with ns Some show ?thesis by (simp add: updatePredecessorStatus_def Let_def)
  qed
qed

lemma jobStore_load_useFrame: "useFrame X l (stateOf (jobStore_load i l))"
  unfolding useFrame_def
  by (auto simp: jobStore_load_def inUse_def split: option.splits)


lemma processRemovedJob_useFrame: "useFrame X l (stateOf (processRemovedJob jid l))"
  unfolding processRemovedJob_def by (rule updatePredecessorStatus_useFrame)

lemma finishedJob_tail_frame:
  "useFrame X l1
     (stateOf (if jobStore_exists (jobStore l1) jid then
            (case jobStore_load jid l1 of
               Err e l2 \<Rightarrow>
                 if e = NoSuchJobException then
                   (if js_className (jobStore l2) = ''AWSJobStore'' then processRemovedJob jid l2
                    else Err e l2)
                 else Err e l2
             | Ok jobWrapper l2 \<Rightarrow>
                 (let l3 =
                    (if resultStatus \<noteq> 0 then
                       (let J = setupJobAfterFailure (objs l2 jobWrapper) in
                        l2\<lparr>objs := (objs l2)(jobWrapper := J),
                           jobStore := jobStore_store J (jobStore l2)\<rparr>)
                     else if jid \<in> hasFailedSuccessors (toilState l2) then
                       l2\<lparr>toilState := (toilState l2)\<lparr>hasFailedSuccessors :=
                             hasFailedSuccessors (toilState l2) - {jid}\<rparr>\<rparr>
                     else l2)
                  in Ok () (l3\<lparr>toilState := (toilState l3)\<lparr>updatedJobs :=
                              insert (jobWrapper, resultStatus) (updatedJobs (toilState l3))\<rparr>\<rparr>)))
          else processRemovedJob jid l1))"
proof (cases "jobStore_exists (jobStore l1) jid")
  case False
  then show ?thesis by (simp add: processRemovedJob_useFrame)
next
  case True
  show ?thesis
  proof (cases "js_records (jobStore l1) jid")
    case None
    then have ld: "jobStore_load jid l1 = Err NoSuchJobException l1"
      by (simp add: jobStore_load_def)
    show ?thesis using True by (simp add: ld processRemovedJob_useFrame)
  next
    case (Some rec)
    then have ld: "jobStore_load jid l1 =
        Ok (nextAddr l1) (l1\<lparr>objs := (objs l1)(nextAddr l1 := rec), nextAddr := Suc (nextAddr l1)\<rparr>)"
      by (simp add: jobStore_load_def)
    show ?thesis using True unfolding ld useFrame_def
      by (auto simp: Let_def inUse_def)
  qed
qed

lemma processFinishedJob_useFrame: "useFrame X l (stateOf (processFinishedJob b rs w l))"
proof -
  let ?A = "(if w \<noteq> None \<and> hasClusterScaler l then
              (case jobBatchSystemIDToIssuedJob l b of
                 None \<Rightarrow> Err KeyError l
               | Some ij \<Rightarrow> Ok () (l\<lparr>scalerCompleted := scalerCompleted l @ [(ij, the w)]\<rparr>))
            else Ok () l)"
  have a: "useFrame X l (stateOf ?A)"
    by (rule useFrame_untouched) (auto split: option.splits)
  show ?thesis
    unfolding processFinishedJob_def
    apply (rule frame_bind[OF a])
    apply (rule frame_bind[OF removeJobID_useFrame])
    apply (rule finishedJob_tail_frame)
    done
qed

lemma processKilledJobs_useFrame: "useFrame X l (stateOf (processKilledJobs bs l))"
proof (induction bs arbitrary: l)
  case Nil
  show ?case by simp
next
  case (Cons b bs)
  show ?case unfolding processKilledJobs.simps
    by (rule frame_bind[OF processFinishedJob_useFrame Cons])
qed

lemma killJobs_useFrame: "useFrame X l (stateOf (killJobs ks l))"
proof -
  have "useFrame X l (l\<lparr>batchSystem := killBatchJobs ks (batchSystem l)\<rparr>)"
    by (rule useFrame_untouched) simp_all
  then show ?thesis
    using processKilledJobs_useFrame[of X "l\<lparr>batchSystem := killBatchJobs ks (batchSystem l)\<rparr>" ks]
    by (auto simp: killJobs_def intro: useFrame_trans)
qed

lemma reissueOverLongJobs_useFrame: "useFrame X l (stateOf (reissueOverLongJobs l))"
  by (auto simp: reissueOverLongJobs_def Let_def killJobs_useFrame split: sum.splits)

lemma reissueMissingJobs_useFrame: "useFrame X l (stateOf (reissueMissingJobs order N l))"
proof -
  let ?l1 = "l\<lparr>reissueMissingJobs_missingHash :=
                   reissueMissingJobs_missingHash l |` dom (jobBatchSystemIDToIssuedJob l)\<rparr>"
  have a: "useFrame X l ?l1" by (rule useFrame_untouched) simp_all
  show ?thesis
  proof (cases "set (bs_issued (batchSystem l)) \<subseteq> dom (jobBatchSystemIDToIssuedJob l)")
    case False
    with a show ?thesis by (simp add: reissueMissingJobs_def Let_def)
  next
    case True
    obtain mh ks where c: "countMissingJobs N
                   (order (dom (jobBatchSystemIDToIssuedJob l) - set (bs_issued (batchSystem l))))
                   (reissueMissingJobs_missingHash ?l1, []) = (mh, ks)"
      by (cases "countMissingJobs N
                   (order (dom (jobBatchSystemIDToIssuedJob l) - set (bs_issued (batchSystem l))))
                   (reissueMissingJobs_missingHash ?l1, [])")
    let ?l2 = "?l1\<lparr>reissueMissingJobs_missingHash := mh\<rparr>"
    have "useFrame X l ?l2" by (rule useFrame_untouched) simp_all
    with killJobs_useFrame[of X ?l2 ks]
    have k: "useFrame X l (stateOf (killJobs ks ?l2))" by (rule useFrame_trans[rotated]) 
    show ?thesis
      using True c k unfolding reissueMissingJobs_def Let_def
      by (cases "killJobs ks ?l2") simp_all
  qed
qed

lemma failPredecessor_useFrame: "useFrame (insert P X) l (stateOf (failPredecessor P l))"
  by (rule useFrame_same)
    (auto simp: failPredecessor_def Let_def inUse_def split: option.splits if_splits)

lemma failPredecessors_useFrame: "useFrame (set ps \<union> X) l (stateOf (failPredecessors ps l))"
proof (induction ps arbitrary: l)
  case Nil
  show ?case by simp
next
  case (Cons p ps)
  have a: "useFrame (set (p # ps) \<union> X) l (stateOf (failPredecessor p l))"
    by (rule useFrame_mono[OF failPredecessor_useFrame[of p X]]) auto
  have b: "\<And>l1. useFrame (set (p # ps) \<union> X) l1 (stateOf (failPredecessors ps l1))"
    by (rule useFrame_mono[OF Cons]) auto
  show ?case unfolding failPredecessors.simps
    by (rule frame_bind[OF a b])
qed

lemma failSuccessors_useFrame: "useFrame X l (stateOf (failSuccessors ss l))"
proof (induction ss arbitrary: l)
  case Nil
  show ?case by simp
next
  case (Cons s ss)
  show ?case
  proof (cases "successorJobStoreIDToPredecessorJobs (toilState l) s")
    case None
    with Cons show ?thesis by simp
  next
    case (Some preds)
    let ?l1 = "l\<lparr>toilState := (toilState l)\<lparr>successorJobStoreIDToPredecessorJobs :=
                        (successorJobStoreIDToPredecessorJobs (toilState l))(s := None)\<rparr>\<rparr>"
    have a: "useFrame X l ?l1"
      by (rule useFrame_same) (auto simp: inUse_def split: if_splits)
    have "useFrame (set preds \<union> X) ?l1 (stateOf (failPredecessors preds ?l1))"
      by (rule failPredecessors_useFrame)
    with a have "useFrame (set preds \<union> X) l (stateOf (failPredecessors preds ?l1))"
      by (auto intro: useFrame_trans useFrame_mono)
    then have f: "useFrame X l (stateOf (failPredecessors preds ?l1))"
      by (rule useFrame_absorb) (use Some in \<open>auto simp: inUse_def\<close>)
    show ?thesis
    proof (cases "failPredecessors preds ?l1")
      case (Err e l2)
      with f Some show ?thesis by simp
    next
      case (Ok u l2)
      with f have "useFrame X l l2" by simp
      from this Cons[of l2] have "useFrame X l (stateOf (failSuccessors ss l2))"
        by (rule useFrame_trans)
      with Ok Some show ?thesis by simp
    qed
  qed
qed


lemma processTotallyFailedJob_useFrame:
  "useFrame X l (stateOf (processTotallyFailedJob py depth jw l))"
proof -
  define jid where "jid = jobStoreID (objs l jw)"
  define l1 where "l1 = l\<lparr>toilState := (toilState l)\<lparr>totalFailedJobs :=
                   finsert jid (totalFailedJobs (toilState l))\<rparr>\<rparr>"
  have e: "processTotallyFailedJob py depth jw l =
     (case serviceJobStoreIDToPredecessorJob (toilState l1) jid of
           Some predecessorJobWrapper \<Rightarrow>
             (case updatePredecessorStatus jid l1 of
                Err e l2 \<Rightarrow> Err e l2
              | Ok u l2 \<Rightarrow>
                  Ok () ((case servicesIssued (toilState (jobStore_deleteFile (startJobStoreID (objs l2 jw)) l2))
                                (jobStoreID (objs (jobStore_deleteFile (startJobStoreID (objs l2 jw)) l2)
                                               predecessorJobWrapper)) of
                               Some svcs \<Rightarrow> killServices svcs True
                                              (jobStore_deleteFile (startJobStoreID (objs l2 jw)) l2)
                             | None \<Rightarrow> jobStore_deleteFile (startJobStoreID (objs l2 jw)) l2)
                          \<lparr>toilState := (toilState
                              (case servicesIssued (toilState (jobStore_deleteFile (startJobStoreID (objs l2 jw)) l2))
                                (jobStoreID (objs (jobStore_deleteFile (startJobStoreID (objs l2 jw)) l2)
                                               predecessorJobWrapper)) of
                               Some svcs \<Rightarrow> killServices svcs True
                                              (jobStore_deleteFile (startJobStoreID (objs l2 jw)) l2)
                             | None \<Rightarrow> jobStore_deleteFile (startJobStoreID (objs l2 jw)) l2))
                            \<lparr>hasFailedSuccessors :=
                                 insert (jobStoreID (objs (jobStore_deleteFile (startJobStoreID (objs l2 jw)) l2)
                                               predecessorJobWrapper))
                                   (hasFailedSuccessors (toilState
                              (case servicesIssued (toilState (jobStore_deleteFile (startJobStoreID (objs l2 jw)) l2))
                                (jobStoreID (objs (jobStore_deleteFile (startJobStoreID (objs l2 jw)) l2)
                                               predecessorJobWrapper)) of
                               Some svcs \<Rightarrow> killServices svcs True
                                              (jobStore_deleteFile (startJobStoreID (objs l2 jw)) l2)
                             | None \<Rightarrow> jobStore_deleteFile (startJobStoreID (objs l2 jw)) l2)))\<rparr>\<rparr>))
         | None \<Rightarrow>
             if jid \<in> dom (servicesIssued (toilState l1)) then Err AssertionError l1
             else
               (case getSuccessors depth (objs l1 jw) (failedSuccessors (toilState l1))
                       (jobStore l1) of
                  Err e seen \<Rightarrow> Err e (l1\<lparr>toilState := (toilState l1)\<lparr>failedSuccessors := seen\<rparr>\<rparr>)
                | Ok unseenSuccessors seen \<Rightarrow>
                    (case failSuccessors (order_ids py unseenSuccessors)
                            (l1\<lparr>toilState := (toilState l1)\<lparr>failedSuccessors := seen\<rparr>\<rparr>) of
                       Err e l3 \<Rightarrow> Err e l3
                     | Ok u l3 \<Rightarrow>
                         (case successorJobStoreIDToPredecessorJobs (toilState l3) jid of
                            None \<Rightarrow> Ok () l3
                          | Some preds \<Rightarrow>
                              updatePredecessorStatus jid
                                (l3\<lparr>toilState := (toilState l3)\<lparr>hasFailedSuccessors :=
                                      hasFailedSuccessors (toilState l3)
                                        \<union> (\<lambda>p. jobStoreID (objs l3 p)) ` set preds\<rparr>\<rparr>)))))"
    unfolding processTotallyFailedJob_def Let_def jid_def l1_def ..
  have a: "useFrame X l l1" unfolding l1_def
    by (rule useFrame_same) (auto simp: inUse_def)
  have "useFrame X l1 (stateOf (processTotallyFailedJob py depth jw l))"
  proof (cases "serviceJobStoreIDToPredecessorJob (toilState l1) jid")
    case (Some P)
    have u: "useFrame X l1 (stateOf (updatePredecessorStatus jid l1))"
      by (rule updatePredecessorStatus_useFrame)
    show ?thesis
    proof (cases "updatePredecessorStatus jid l1")
      case (Err e l2)
      with u Some show ?thesis unfolding e by simp
    next
      case (Ok v l2)
      with u have u2: "useFrame X l1 l2" by simp
      define l3 where "l3 = jobStore_deleteFile (startJobStoreID (objs l2 jw)) l2"
      define l4 where "l4 = (case servicesIssued (toilState l3) (jobStoreID (objs l3 P)) of
                               Some svcs \<Rightarrow> killServices svcs True l3
                             | None \<Rightarrow> l3)"
      define l5 where "l5 = l4\<lparr>toilState := (toilState l4)\<lparr>hasFailedSuccessors :=
                                 insert (jobStoreID (objs l3 P)) (hasFailedSuccessors (toilState l4))\<rparr>\<rparr>"
      have "useFrame X l2 l3" unfolding l3_def by (rule jobStore_deleteFile_frame)
      moreover have "useFrame X l3 l4" unfolding l4_def
        by (cases "servicesIssued (toilState l3) (jobStoreID (objs l3 P))")
          (simp_all add: killServices_frame)
      moreover have "useFrame X l4 l5" unfolding l5_def
        by (rule useFrame_same) (auto simp: inUse_def)
      ultimately have "useFrame X l1 l5" using u2 by (blast intro: useFrame_trans)
      moreover have "processTotallyFailedJob py depth jw l = Ok () l5"
        unfolding e l5_def l4_def l3_def using Some Ok by simp
      ultimately show ?thesis by simp
    qed
  next
    case None
    note ns = this
    show ?thesis
    proof (cases "jid \<in> dom (servicesIssued (toilState l1))")
      case True
      with ns show ?thesis unfolding e by simp
    next
      case False
      show ?thesis
      proof (cases "getSuccessors depth (objs l1 jw) (failedSuccessors (toilState l1)) (jobStore l1)")
        case (Err x seen)
        have "useFrame X l1 (l1\<lparr>toilState := (toilState l1)\<lparr>failedSuccessors := seen\<rparr>\<rparr>)"
          by (rule useFrame_same) (auto simp: inUse_def)
        with ns False Err show ?thesis unfolding e by simp
      next
        case (Ok unseen seen)
        define l2 where "l2 = l1\<lparr>toilState := (toilState l1)\<lparr>failedSuccessors := seen\<rparr>\<rparr>"
        have b: "useFrame X l1 l2" unfolding l2_def
          by (rule useFrame_same) (auto simp: inUse_def)
        have f: "useFrame X l2 (stateOf (failSuccessors (order_ids py unseen) l2))"
          by (rule failSuccessors_useFrame)
        show ?thesis
        proof (cases "failSuccessors (order_ids py unseen) l2")
          case (Err x l3)
          with f b have "useFrame X l1 l3" by (auto intro: useFrame_trans)
          with ns False Ok Err show ?thesis unfolding e l2_def by simp
        next
          case ok3: (Ok v l3)
          with f b have c: "useFrame X l1 l3" by (auto intro: useFrame_trans)
          show ?thesis
          proof (cases "successorJobStoreIDToPredecessorJobs (toilState l3) jid")
            case None
            with ns False Ok ok3 c show ?thesis unfolding e l2_def by simp
          next
            case (Some preds)
            define l4 where "l4 = l3\<lparr>toilState := (toilState l3)\<lparr>hasFailedSuccessors :=
                                      hasFailedSuccessors (toilState l3)
                                        \<union> (\<lambda>p. jobStoreID (objs l3 p)) ` set preds\<rparr>\<rparr>"
            have "useFrame X l3 l4" unfolding l4_def
              by (rule useFrame_same) (auto simp: inUse_def)
            with c updatePredecessorStatus_useFrame[of X l4 jid]
            have "useFrame X l1 (stateOf (updatePredecessorStatus jid l4))"
              by (blast intro: useFrame_trans)
            with ns False Ok ok3 Some show ?thesis unfolding e l2_def l4_def by simp
          qed
        qed
      qed
    qed
  qed
  with a show ?thesis by (rule useFrame_trans)
qed

lemma registerService_useFrame: "useFrame (insert jw X) l (stateOf (registerService jw t l))"
  by (rule useFrame_same)
    (auto simp: registerService_def Let_def inUse_def split: prod.splits option.splits if_splits)

lemma registerServices_useFrame: "useFrame (insert jw X) l (stateOf (registerServices jw ts l))"
proof (induction ts arbitrary: l)
  case Nil
  show ?case by simp
next
  case (Cons t ts)
  show ?case unfolding registerServices.simps
    by (rule frame_bind[OF registerService_useFrame Cons])
qed

lemma scheduleServices_useFrame: "useFrame (insert jw X) l (scheduleServices jw l)"
  by (rule useFrame_same) (auto simp: scheduleServices_def Let_def inUse_def)

lemma startServices_useFrame: "useFrame (insert jw X) l (stateOf (startServices jw l))"
proof -
  let ?l1 = "l\<lparr>toilState := (toilState l)\<lparr>servicesIssued :=
                      (servicesIssued (toilState l))(jobStoreID (objs l jw) \<mapsto> Map.empty)\<rparr>\<rparr>"
  have a: "useFrame (insert jw X) l ?l1"
    by (rule useFrame_same) (auto simp: inUse_def)
  let ?r = "registerServices jw (concat (services (objs l jw))) ?l1"
  from a registerServices_useFrame[of jw X ?l1 "concat (services (objs l jw))"]
  have r: "useFrame (insert jw X) l (stateOf ?r)" by (rule useFrame_trans)
  show ?thesis
  proof (cases ?r)
    case (Err e l2)
    with r show ?thesis by (simp add: startServices_def Let_def)
  next
    case (Ok u l2)
    with r have "useFrame (insert jw X) l l2" by simp
    from this scheduleServices_useFrame[of jw X l2]
    have "useFrame (insert jw X) l (scheduleServices jw l2)" by (rule useFrame_trans)
    with Ok show ?thesis by (simp add: startServices_def Let_def)
  qed
qed

lemma getServiceJobsToStart_useFrame: "useFrame X l (stateOf (getServiceJobsToStart w l))"
  by (rule useFrame_same)
    (auto simp: getServiceJobsToStart_def Let_def inUse_def split: sum.splits prod.splits if_splits)

lemma issueServiceJobs_useFrame: "useFrame X l (stateOf (issueServiceJobs n l))"
proof (induction n arbitrary: l)
  case 0
  show ?case by simp
next
  case (Suc n)
  note g = getServiceJobsToStart_useFrame[of X l 0]
  show ?case
  proof (cases "getServiceJobsToStart 0 l")
    case (Err e l1)
    with g show ?thesis by simp
  next
    case (Ok v l1)
    with g have g1: "useFrame X l l1" by simp
    show ?thesis
    proof (cases v)
      case None
      with Ok g1 show ?thesis by simp
    next
      case (Some t)
      obtain sid m c d where t: "t = (sid, m, c, d)" by (cases t)
      from g1 issueJob_frame[of X l1 sid m c d False]
      have "useFrame X l (issueJob sid m c d False l1)" by (rule useFrame_trans)
      from this Suc[of "issueJob sid m c d False l1"]
      have "useFrame X l (stateOf (issueServiceJobs n (issueJob sid m c d False l1)))"
        by (rule useFrame_trans)
      with Ok Some t show ?thesis by simp
    qed
  qed
qed

lemma getJobWrapperWhoseServicesAreRunning_useFrame:
  "useFrame X l (stateOf (getJobWrapperWhoseServicesAreRunning w l))
   \<and> (\<forall>jw l1. getJobWrapperWhoseServicesAreRunning w l = Ok (Some jw) l1 \<longrightarrow> inUse l jw)"
proof -
  have "useFrame X l (stateOf (getJobWrapperWhoseServicesAreRunning w l))"
    by (rule useFrame_same)
      (auto simp: getJobWrapperWhoseServicesAreRunning_def Let_def inUse_def
          split: sum.splits prod.splits if_splits)
  moreover have "\<forall>jw l1. getJobWrapperWhoseServicesAreRunning w l = Ok (Some jw) l1 \<longrightarrow> inUse l jw"
    by (auto simp: getJobWrapperWhoseServicesAreRunning_def Let_def inUse_def
          split: sum.splits prod.splits if_splits)
  ultimately show ?thesis by blast
qed

lemma collectStartedJobs_useFrame: "useFrame X l (stateOf (collectStartedJobs n l))"
proof (induction n arbitrary: l)
  case 0
  show ?case by simp
next
  case (Suc n)
  note g = getJobWrapperWhoseServicesAreRunning_useFrame[of X l 0]
  show ?case
  proof (cases "getJobWrapperWhoseServicesAreRunning 0 l")
    case (Err e l1)
    with g show ?thesis by simp
  next
    case (Ok v l1)
    with g have g1: "useFrame X l l1" by simp
    show ?thesis
    proof (cases v)
      case None
      with Ok g1 show ?thesis by simp
    next
      case (Some jw)
      with Ok g have u: "inUse l jw" by blast
      let ?l2 = "l1\<lparr>objs := (objs l1)(jw := (objs l1 jw)\<lparr>services := []\<rparr>),
                toilState := (toilState l1)\<lparr>updatedJobs :=
                   insert (jw, 0) (updatedJobs (toilState l1))\<rparr>\<rparr>"
      have "useFrame (insert jw X) l1 ?l2"
        by (rule useFrame_same) (auto simp: inUse_def)
      with g1 have "useFrame (insert jw X) l ?l2"
        by (blast intro: useFrame_trans useFrame_mono)
      then have "useFrame X l ?l2" by (rule useFrame_absorb) (use u in auto)
      from this Suc[of ?l2] have "useFrame X l (stateOf (collectStartedJobs n ?l2))"
        by (rule useFrame_trans)
      with Ok Some show ?thesis by simp
    qed
  qed
qed

lemma gatherUpdatedJob_useFrame: "useFrame X l (stateOf (gatherUpdatedJob py env t l))"
proof (cases "bs_updated (batchSystem l)")
  case Nil
  show ?thesis
  proof (cases "env_time env - t \<ge> cfg_rescueJobsFrequency (config l)")
    case False
    with Nil show ?thesis by (simp add: gatherUpdatedJob_def)
  next
    case True
    note o = reissueOverLongJobs_useFrame[of X l]
    show ?thesis
    proof (cases "reissueOverLongJobs l")
      case (Err e l1)
      with o Nil True show ?thesis by (simp add: gatherUpdatedJob_def)
    next
      case (Ok u l1)
      with o have "useFrame X l l1" by simp
      from this reissueMissingJobs_useFrame[of X l1 "order_batch py" 3]
      have m: "useFrame X l (stateOf (reissueMissingJobs (order_batch py) 3 l1))"
        by (rule useFrame_trans)
      show ?thesis using Nil True Ok m
        by (cases "reissueMissingJobs (order_batch py) 3 l1") (simp_all add: gatherUpdatedJob_def)
    qed
  qed
next
  case (Cons u rest)
  obtain b rs w where u: "u = (b, rs, w)" by (cases u)
  let ?l1 = "l\<lparr>batchSystem := (batchSystem l)\<lparr>bs_updated := rest\<rparr>\<rparr>"
  have a: "useFrame X l ?l1" by (rule useFrame_untouched) simp_all
  from a processFinishedJob_useFrame[of X ?l1 b rs w]
  have p: "useFrame X l (stateOf (processFinishedJob b rs w ?l1))" by (rule useFrame_trans)
  show ?thesis using Cons u a p
    by (cases "processFinishedJob b rs w ?l1") (simp_all add: gatherUpdatedJob_def Let_def)
qed


subsection \<open>The waiting join nodes through the main loop\<close>

lemma inv_bind:
  assumes "joinsApart X (stateOf r)"
    and "\<And>x l1. r = Ok x l1 \<Longrightarrow> joinsApart X l1 \<Longrightarrow> joinsApart X (stateOf (g x l1))"
  shows "joinsApart X (stateOf (case r of Ok x l1 \<Rightarrow> g x l1 | Err e l1 \<Rightarrow> Err e l1))"
proof (cases r)
  case (Ok x l1)
  with assms(1) have "joinsApart X l1" by simp
  with assms(2)[OF Ok] Ok show ?thesis by simp
next
  case (Err e l1)
  with assms(1) show ?thesis by simp
qed

lemma joinsApart_cong:
  assumes "nextAddr l' = nextAddr l"
    and "jobsToBeScheduledWithMultiplePredecessors (toilState l')
         = jobsToBeScheduledWithMultiplePredecessors (toilState l)"
    and "\<And>a. inUse l' a = inUse l a"
  shows "joinsApart X l' = joinsApart X l"
  using assms by (simp add: joinsApart_def)

lemma joinsApart_less:
  assumes "joinsApart X l"
    and "nextAddr l' = nextAddr l"
    and "\<And>sid a. jobsToBeScheduledWithMultiplePredecessors (toilState l') sid = Some a \<Longrightarrow>
           jobsToBeScheduledWithMultiplePredecessors (toilState l) sid = Some a"
    and "\<And>a. inUse l' a \<Longrightarrow> inUse l a \<or> a \<in> X"
  shows "joinsApart X l'"
  using assms unfolding joinsApart_def by metis

lemma joinsApart_drop: "joinsApart X l \<Longrightarrow> Y \<subseteq> X \<Longrightarrow> joinsApart Y l"
  unfolding joinsApart_def by blast

lemma failedSuccessorOf_useFrame:
  "useFrame (insert jw X) l (stateOf (failedSuccessorOf jw sid l))"
  by (rule useFrame_same)
    (auto simp: failedSuccessorOf_def Let_def inUse_def split: option.splits if_splits
        dest: notin_set_remove1)

lemma scheduleSuccessor_apart:
  assumes inv: "joinsApart X l" and jw: "jw \<in> X"
  shows "joinsApart X (stateOf (scheduleSuccessor jw t succs l))"
proof -
  obtain sid m c d p pred where t: "t = (sid, m, c, d, p, pred)" by (cases t)
  define preds where "preds = (case successorJobStoreIDToPredecessorJobs (toilState l) sid of
                        None \<Rightarrow> [] | Some ps \<Rightarrow> ps)"
  define l1 where "l1 = l\<lparr>toilState := (toilState l)\<lparr>successorJobStoreIDToPredecessorJobs :=
                      (successorJobStoreIDToPredecessorJobs (toilState l))(sid \<mapsto> preds @ [jw])\<rparr>\<rparr>"
  have i1: "joinsApart X l1"
  proof (rule joinsApart_less[OF inv])
    fix a assume "inUse l1 a"
    then show "inUse l a \<or> a \<in> X" using jw
      by (auto simp: l1_def inUse_def preds_def split: if_splits option.splits)
  qed (simp_all add: l1_def)
  show ?thesis
  proof (cases pred)
    case None
    with i1 show ?thesis
      by (simp add: t scheduleSuccessor_def Let_def preds_def[symmetric] l1_def[symmetric])
  next
    case (Some pid)
    define G where "G = (case jobsToBeScheduledWithMultiplePredecessors (toilState l1) sid of
                         Some a \<Rightarrow> Ok a l1
                       | None \<Rightarrow>
                           (case jobStore_load sid l1 of
                              Err e l2 \<Rightarrow> Err e l2
                            | Ok a l2 \<Rightarrow>
                                Ok a (l2\<lparr>toilState := (toilState l2)
                                         \<lparr>jobsToBeScheduledWithMultiplePredecessors :=
                                            (jobsToBeScheduledWithMultiplePredecessors (toilState l2))
                                              (sid \<mapsto> a)\<rparr>\<rparr>)))"
    define rest where "rest = (\<lambda>a l2.
     (let l3 = l2\<lparr>objs := (objs l2)(a := (objs l2 a)\<lparr>predecessorsFinished :=
                                     finsert pid (predecessorsFinished (objs l2 a))\<rparr>)\<rparr>
      in case (if sid \<in> failedSuccessors (toilState l3)
               then failedSuccessorOf jw sid l3 else Ok False l3) of
           Err e l4 \<Rightarrow> Err e l4
         | Ok goOn l4 \<Rightarrow>
             if goOn then Ok succs l4
             else
               (let S = objs l4 a in
                if \<not> int (fcard (predecessorsFinished S)) \<le> predecessorNumber S
                then Err AssertionError l4
                else if int (fcard (predecessorsFinished S)) < predecessorNumber S
                then Ok succs l4
                else
                  (case dict_pop (jobsToBeScheduledWithMultiplePredecessors (toilState l4)) sid of
                     Inl e \<Rightarrow> Err e l4
                   | Inr (v, d') \<Rightarrow>
                       Ok (succs @ [(sid, m, c, d, p)])
                          (l4\<lparr>toilState := (toilState l4)
                              \<lparr>jobsToBeScheduledWithMultiplePredecessors := d'\<rparr>\<rparr>)))))"
    have e: "scheduleSuccessor jw t succs l =
       (case G of Ok a l2 \<Rightarrow> rest a l2 | Err e l2 \<Rightarrow> Err e l2)"
      unfolding t Some scheduleSuccessor_def G_def rest_def l1_def preds_def Let_def by simp
    have g: "joinsApart X (stateOf G)"
    proof (cases "jobsToBeScheduledWithMultiplePredecessors (toilState l1) sid")
      case (Some a)
      with i1 show ?thesis by (simp add: G_def)
    next
      case None
      show ?thesis
      proof (cases "js_records (jobStore l1) sid")
        case nr: None
        then have "jobStore_load sid l1 = Err NoSuchJobException l1" by (simp add: jobStore_load_def)
        with None i1 show ?thesis by (simp add: G_def)
      next
        case (Some rec)
        then have ld: "jobStore_load sid l1 =
          Ok (nextAddr l1) (l1\<lparr>objs := (objs l1)(nextAddr l1 := rec), nextAddr := Suc (nextAddr l1)\<rparr>)"
          by (simp add: jobStore_load_def)
        have "joinsApart X (l1\<lparr>objs := (objs l1)(nextAddr l1 := rec), nextAddr := Suc (nextAddr l1),
                 toilState := (toilState l1)\<lparr>jobsToBeScheduledWithMultiplePredecessors :=
                    (jobsToBeScheduledWithMultiplePredecessors (toilState l1))(sid \<mapsto> nextAddr l1)\<rparr>\<rparr>)"
          using i1 unfolding joinsApart_def inUse_def
          by (auto split: if_splits simp: less_Suc_eq; blast)
        with None show ?thesis by (simp add: G_def ld)
      qed
    qed
    have r: "\<And>a l2. joinsApart X l2 \<Longrightarrow> joinsApart X (stateOf (rest a l2))"
    proof -
      fix a l2 assume i2: "joinsApart X l2"
      define l3 where "l3 = l2\<lparr>objs := (objs l2)(a := (objs l2 a)\<lparr>predecessorsFinished :=
                                     finsert pid (predecessorsFinished (objs l2 a))\<rparr>)\<rparr>"
      define F where "F = (if sid \<in> failedSuccessors (toilState l3)
               then failedSuccessorOf jw sid l3 else Ok False l3)"
      have r2: "rest a l2 =
         (case F of
            Err e l4 \<Rightarrow> Err e l4
          | Ok goOn l4 \<Rightarrow>
              if goOn then Ok succs l4
              else
                (if \<not> int (fcard (predecessorsFinished (objs l4 a))) \<le> predecessorNumber (objs l4 a)
                 then Err AssertionError l4
                 else if int (fcard (predecessorsFinished (objs l4 a))) < predecessorNumber (objs l4 a)
                 then Ok succs l4
                 else
                   (case dict_pop (jobsToBeScheduledWithMultiplePredecessors (toilState l4)) sid of
                      Inl e \<Rightarrow> Err e l4
                    | Inr (v, d') \<Rightarrow>
                        Ok (succs @ [(sid, m, c, d, p)])
                           (l4\<lparr>toilState := (toilState l4)
                               \<lparr>jobsToBeScheduledWithMultiplePredecessors := d'\<rparr>\<rparr>))))"
        unfolding rest_def F_def l3_def Let_def ..
      have "joinsApart X l3 = joinsApart X l2"
        by (rule joinsApart_cong) (simp_all add: l3_def inUse_def)
      with i2 have i3: "joinsApart X l3" by simp
      have "useFrame (insert jw X) l3 (stateOf F)"
        unfolding F_def using failedSuccessorOf_useFrame[of jw X l3 sid] by simp
      then have "useFrame X l3 (stateOf F)"
        by (rule useFrame_absorb) (use jw in auto)
      with i3 have f: "joinsApart X (stateOf F)" by (rule joinsApart_frame)
      show "joinsApart X (stateOf (rest a l2))"
      proof (cases F)
        case (Err x l4)
        with f show ?thesis unfolding r2 by simp
      next
        case (Ok goOn l4)
        with f have i4: "joinsApart X l4" by simp
        have pop: "\<And>v d'. dict_pop (jobsToBeScheduledWithMultiplePredecessors (toilState l4)) sid
                      = Inr (v, d') \<Longrightarrow>
            joinsApart X (l4\<lparr>toilState := (toilState l4)
                               \<lparr>jobsToBeScheduledWithMultiplePredecessors := d'\<rparr>\<rparr>)"
        proof -
          fix v d'
          assume "dict_pop (jobsToBeScheduledWithMultiplePredecessors (toilState l4)) sid = Inr (v, d')"
          then have d': "d' = (jobsToBeScheduledWithMultiplePredecessors (toilState l4))(sid := None)"
            by (auto simp: dict_pop_def split: option.splits)
          show "joinsApart X (l4\<lparr>toilState := (toilState l4)
                               \<lparr>jobsToBeScheduledWithMultiplePredecessors := d'\<rparr>\<rparr>)"
            by (rule joinsApart_less[OF i4]) (auto simp: d' inUse_def split: if_splits)
        qed
        show ?thesis unfolding r2 using Ok i4 pop
          by (auto split: sum.splits)
      qed
    qed
    show ?thesis unfolding e
      by (rule inv_bind[OF g]) (rule r)
  qed
qed

lemma scheduleSuccessorList_apart:
  assumes jw: "jw \<in> X"
  shows "joinsApart X l \<Longrightarrow> joinsApart X (stateOf (scheduleSuccessorList jw ts succs l))"
proof (induction ts arbitrary: succs l)
  case Nil
  then show ?case by simp
next
  case (Cons t ts)
  show ?case unfolding scheduleSuccessorList.simps
    by (rule inv_bind[OF scheduleSuccessor_apart[OF Cons.prems jw]]) (rule Cons.IH)
qed

lemma scheduleSuccessors_apart:
  assumes inv: "joinsApart X l" and jw: "jw \<in> X"
  shows "joinsApart X (stateOf (scheduleSuccessors jw l))"
proof -
  let ?l1 = "l\<lparr>toilState := (toilState l)\<lparr>successorCounts :=
                      (successorCounts (toilState l))(jobStoreID (objs l jw)
                         \<mapsto> int (length (last (stack (objs l jw)))))\<rparr>\<rparr>"
  have "joinsApart X ?l1 = joinsApart X l"
    by (rule joinsApart_cong) (simp_all add: inUse_def)
  with inv have i1: "joinsApart X ?l1" by simp
  note s = scheduleSuccessorList_apart[OF jw i1, of "last (stack (objs l jw))" "[]"]
  have "joinsApart X (stateOf (case scheduleSuccessorList jw (last (stack (objs l jw))) [] ?l1 of
           Ok successors l1 \<Rightarrow> Ok () (issueJobs successors l1)
         | Err e l1 \<Rightarrow> Err e l1))"
  proof (rule inv_bind[OF s])
    fix x l1 assume "joinsApart X l1"
    then show "joinsApart X (stateOf (Ok () (issueJobs x l1)))"
      using joinsApart_frame[OF _ issueJobs_frame] by simp
  qed
  with inv show ?thesis by (simp add: scheduleSuccessors_def Let_def)
qed

lemma processUpdatedJob_apart:
  assumes inv: "joinsApart X l" and jw: "fst u \<in> X"
  shows "joinsApart X (stateOf (processUpdatedJob py depth u l))"
proof -
  obtain w rs where u: "u = (w, rs)" by (cases u)
  with jw have w: "w \<in> X" by simp
  note fr = joinsApart_frame[OF inv]
  have k: "\<And>svcs e. joinsApart X (killServices svcs e l)" by (rule fr) (rule killServices_frame)
  have i: "\<And>jid m c d p. joinsApart X (issueJob jid m c d p l)" by (rule fr) (rule issueJob_frame)
  have f: "joinsApart X (stateOf (processTotallyFailedJob py depth w l))"
    by (rule fr) (rule processTotallyFailedJob_useFrame)
  have "useFrame X l (stateOf (startServices w l))"
    by (rule useFrame_absorb[OF startServices_useFrame[of w X]]) (use w in auto)
  then have s: "joinsApart X (stateOf (startServices w l))" by (rule fr)
  note c = scheduleSuccessors_apart[OF inv w]
  show ?thesis unfolding u processUpdatedJob_def Let_def
    using inv k i f s c by (auto split: option.splits)
qed

lemma processUpdatedJobs_apart:
  "joinsApart X l \<Longrightarrow> fst ` set us \<subseteq> X \<Longrightarrow>
   joinsApart X (stateOf (processUpdatedJobs py depth us l))"
proof (induction us arbitrary: l)
  case Nil
  then show ?case by simp
next
  case (Cons u us)
  from Cons.prems(2) have u: "fst u \<in> X" and us: "fst ` set us \<subseteq> X" by auto
  show ?case unfolding processUpdatedJobs.simps
    by (rule inv_bind[OF processUpdatedJob_apart[OF Cons.prems(1) u]]) (rule Cons.IH[OF _ us])
qed


lemma innerLoopIteration_apart:
  assumes ord: "\<forall>S. set (order_updated py S) \<subseteq> S" and inv: "joinsApart {} l"
  shows "joinsApart {} (stateOf (innerLoopIteration py depth env t l))"
proof -
  define l0 where "l0 = environmentStep env l"
  define D where "D = (if updatedJobs (toilState l0) \<noteq> {} then
              (case getNumberOfJobsIssued l0 of
                 Err e l1 \<Rightarrow> Err e l1
               | Ok n l1 \<Rightarrow>
                   processUpdatedJobs py depth (order_updated py (updatedJobs (toilState l1)))
                     (l1\<lparr>toilState := (toilState l1)\<lparr>updatedJobs := {}\<rparr>\<rparr>))
            else Ok () l0)"
  define R where "R = (\<lambda>l2.
                 (case issueServiceJobs
                         (Suc (length (serviceJobWrappersToStart (serviceManager l2)))) l2 of
                    Err e l3 \<Rightarrow> Err e l3
                  | Ok u l3 \<Rightarrow>
                      (case collectStartedJobs
                              (Suc (length (jobWrappersWithServicesThatHaveStarted (serviceManager l3)))) l3 of
                         Err e l4 \<Rightarrow> Err e l4
                       | Ok u l4 \<Rightarrow>
                           (case gatherUpdatedJob py env t l4 of
                              Err e l5 \<Rightarrow> Err e l5
                            | Ok t' l5 \<Rightarrow>
                                (case checkThreads env l5 of
                                   Err e l6 \<Rightarrow> Err e l6
                                 | Ok u l6 \<Rightarrow> Ok (Some t') l6)))))"
  define T where "T = (\<lambda>l1.
          (case exitCriterion l1 of
             Err e l2 \<Rightarrow> Err e l2
           | Ok leave l2 \<Rightarrow> if leave then Ok None l2 else R l2))"
  have e: "innerLoopIteration py depth env t l =
     (case D of Ok u l1 \<Rightarrow> T l1 | Err e l1 \<Rightarrow> Err e l1)"
    unfolding innerLoopIteration_def D_def T_def R_def l0_def Let_def ..
  have i0: "joinsApart {} l0" unfolding l0_def
    by (rule joinsApart_frame[OF inv environmentStep_frame])
  have d: "joinsApart {} (stateOf D)"
  proof (cases "updatedJobs (toilState l0) = {}")
    case True
    with i0 show ?thesis by (simp add: D_def)
  next
    case False
    show ?thesis
    proof (cases "getNumberOfJobsIssued l0")
      case (Err x l1)
      then have "l1 = l0" by (auto simp: getNumberOfJobsIssued_def split: if_splits)
      with Err False i0 show ?thesis by (simp add: D_def)
    next
      case (Ok n l1)
      then have l1: "l1 = l0" by (auto simp: getNumberOfJobsIssued_def split: if_splits)
      let ?X = "fst ` updatedJobs (toilState l0)"
      let ?l2 = "l0\<lparr>toilState := (toilState l0)\<lparr>updatedJobs := {}\<rparr>\<rparr>"
      have i2: "joinsApart ?X ?l2"
        using i0 unfolding joinsApart_def inUse_def by (auto; force)
      have "fst ` set (order_updated py (updatedJobs (toilState l0))) \<subseteq> ?X"
        using ord by auto
      from processUpdatedJobs_apart[OF i2 this]
      have "joinsApart {} (stateOf (processUpdatedJobs py depth
               (order_updated py (updatedJobs (toilState l0))) ?l2))"
        by (rule joinsApart_drop) simp
      with Ok False show ?thesis by (simp add: D_def l1)
    qed
  qed
  have rf: "\<And>l2. useFrame {} l2 (stateOf (R l2))"
    unfolding R_def
    apply (rule frame_bind[OF issueServiceJobs_useFrame])
    apply (rule frame_bind[OF collectStartedJobs_useFrame])
    apply (rule frame_bind[OF gatherUpdatedJob_useFrame])
    apply (rule frame_bind[OF checkThreads_frame])
    apply simp
    done
  have tf: "\<And>l1. useFrame {} l1 (stateOf (T l1))"
    unfolding T_def
    apply (rule frame_bind[OF exitCriterion_frame])
    apply (simp add: rf)
    done
  show ?thesis unfolding e
  proof (rule inv_bind[OF d])
    fix x l1 assume "joinsApart {} l1"
    then show "joinsApart {} (stateOf (T l1))" using tf by (rule joinsApart_frame)
  qed
qed

lemma innerLoop_apart:
  assumes ord: "\<forall>S. set (order_updated py S) \<subseteq> S"
  shows "joinsApart {} l \<Longrightarrow> joinsApart {} (stateOf (innerLoop py depth envs t l))"
proof (induction envs arbitrary: t l)
  case Nil
  then show ?case by simp
next
  case (Cons env envs)
  note it = innerLoopIteration_apart[OF ord Cons.prems, of depth env t]
  show ?case
  proof (cases "innerLoopIteration py depth env t l")
    case (Err e l1)
    with it show ?thesis by simp
  next
    case (Ok v l1)
    with it have i1: "joinsApart {} l1" by simp
    show ?thesis
    proof (cases v)
      case None
      from joinsApart_frame[OF i1 consistencyCheck_frame] Ok None show ?thesis by simp
    next
      case (Some t')
      with Ok Cons.IH[OF i1] show ?thesis by simp
    qed
  qed
qed

subsection \<open>The waiting join nodes when the Leader is built\<close>

lemma buildFrame_refl: "buildFrame l l"
  by (simp add: buildFrame_def)

lemma buildFrame_trans: "buildFrame l l1 \<Longrightarrow> buildFrame l1 l2 \<Longrightarrow> buildFrame l l2"
  by (simp add: buildFrame_def)

lemma buildFrame_cong:
  assumes "nextAddr l0 = nextAddr l" "serviceManager l0 = serviceManager l"
    "serviceJobStoreIDToPredecessorJob (toilState l0) = serviceJobStoreIDToPredecessorJob (toilState l)"
  shows "buildFrame l0 l' = buildFrame l l'"
  using assms by (simp add: buildFrame_def)

lemma getJob_buildFrame: "buildFrame l (stateOf (getJob jobCache i l))"
  by (auto simp: buildFrame_def getJob_def jobStore_load_def dict_getitem_def stateOf_def
      split: option.splits sum.splits)

lemma process_buildFrame:
  assumes rec: "\<forall>a l. buildFrame l (stateOf (recurse a l))"
  shows "buildFrame l (stateOf (processSuccessorWithMultiplePredecessors recurse J sid S l))"
proof (cases "jobsToBeScheduledWithMultiplePredecessors (toilState l) sid")
  case None
  then show ?thesis
    by (simp add: processSuccessorWithMultiplePredecessors_def Let_def dict_pop_def stateOf_def
        buildFrame_def)
next
  case (Some x)
  define jid where "jid = jobStoreID (objs l J)"
  define l1 where "l1 = (if jid |\<notin>| predecessorsFinished (objs l S)
                then l\<lparr>objs := (objs l)(S :=
                         (objs l S)\<lparr>predecessorsFinished := finsert jid (predecessorsFinished (objs l S))\<rparr>)\<rparr>
                else l)"
  define l2 where "l2 = l1\<lparr>toilState := (toilState l1)\<lparr>jobsToBeScheduledWithMultiplePredecessors :=
      (jobsToBeScheduledWithMultiplePredecessors (toilState l1))(sid := None)\<rparr>\<rparr>"
  have f1: "buildFrame l l1" by (simp add: buildFrame_def l1_def)
  have j1: "jobsToBeScheduledWithMultiplePredecessors (toilState l1) sid = Some x"
    using Some by (simp add: l1_def)
  have f2: "buildFrame l l2" by (simp add: buildFrame_def l1_def l2_def)
  from rec have f3: "buildFrame l2 (stateOf (recurse S l2))" by blast
  have "processSuccessorWithMultiplePredecessors recurse J sid S l = Err AssertionError l1
      \<or> processSuccessorWithMultiplePredecessors recurse J sid S l = recurse S l2
      \<or> processSuccessorWithMultiplePredecessors recurse J sid S l = Ok () l1"
    unfolding processSuccessorWithMultiplePredecessors_def Let_def jid_def[symmetric]
      l1_def[symmetric]
    using j1 by (auto simp: dict_pop_def l2_def)
  with f1 buildFrame_trans[OF f2 f3] show ?thesis by (auto simp: stateOf_def)
qed

lemma buildSuccessor_buildFrame:
  assumes rec: "\<forall>a l. buildFrame l (stateOf (recurse a l))"
  shows "buildFrame l (stateOf (buildSuccessor recurse jobCache J t l))"
proof (cases "successorJobStoreIDToPredecessorJobs (toilState l) (succID t)")
  case (Some preds)
  let ?l1 = "l\<lparr>toilState := (toilState l)\<lparr>successorJobStoreIDToPredecessorJobs :=
                        (successorJobStoreIDToPredecessorJobs (toilState l))
                          (succID t \<mapsto> preds @ [J])\<rparr>\<rparr>"
  have c: "\<And>l'. buildFrame ?l1 l' = buildFrame l l'" by (rule buildFrame_cong) simp_all
  have f1: "buildFrame l ?l1" by (simp add: buildFrame_def)
  show ?thesis
  proof (cases "jobsToBeScheduledWithMultiplePredecessors (toilState l) (succID t)")
    case None
    with Some f1 show ?thesis
      by (auto simp: buildSuccessor_def Let_def stateOf_def buildFrame_def)
  next
    case js: (Some S)
    from process_buildFrame[OF rec, of ?l1 J "succID t" S]
    have "buildFrame l (stateOf (processSuccessorWithMultiplePredecessors recurse J (succID t) S ?l1))"
      unfolding c .
    with Some js show ?thesis
      by (auto simp: buildSuccessor_def Let_def stateOf_def buildFrame_def)
  qed
next
  case None
  let ?l1 = "l\<lparr>toilState := (toilState l)\<lparr>successorJobStoreIDToPredecessorJobs :=
                      (successorJobStoreIDToPredecessorJobs (toilState l))
                        (succID t \<mapsto> [J])\<rparr>\<rparr>"
  have c: "\<And>l'. buildFrame ?l1 l' = buildFrame l l'" by (rule buildFrame_cong) simp_all
  have g: "buildFrame l (stateOf (getJob jobCache (succID t) ?l1))"
    using getJob_buildFrame[of ?l1 jobCache "succID t"] unfolding c .
  show ?thesis
  proof (cases "getJob jobCache (succID t) ?l1")
    case (Err e l2)
    with None g show ?thesis by (simp add: buildSuccessor_def Let_def stateOf_def)
  next
    case (Ok a l2)
    with g have s2: "buildFrame l l2" by (simp add: stateOf_def)
    show ?thesis
    proof (cases "succPred t")
      case np: None
      with None Ok have "buildSuccessor recurse jobCache J t l = recurse a l2"
        by (simp add: buildSuccessor_def Let_def)
      with rec s2 show ?thesis by (auto intro: buildFrame_trans)
    next
      case (Some pid)
      let ?l3 = "l2\<lparr>toilState := (toilState l2)\<lparr>jobsToBeScheduledWithMultiplePredecessors :=
                                  (jobsToBeScheduledWithMultiplePredecessors (toilState l2))
                                    (succID t \<mapsto> a)\<rparr>\<rparr>"
      have c3: "\<And>l'. buildFrame ?l3 l' = buildFrame l2 l'" by (rule buildFrame_cong) simp_all
      from None Ok Some have e: "buildSuccessor recurse jobCache J t l =
         (if succID t \<in> dom (jobsToBeScheduledWithMultiplePredecessors (toilState l2))
          then Err AssertionError l2
          else processSuccessorWithMultiplePredecessors recurse J (succID t) a ?l3)"
        by (simp add: buildSuccessor_def Let_def)
      from process_buildFrame[OF rec, of ?l3 J "succID t" a]
      have "buildFrame l2 (stateOf (processSuccessorWithMultiplePredecessors recurse J (succID t) a ?l3))"
        unfolding c3 .
      with s2 have "buildFrame l (stateOf (processSuccessorWithMultiplePredecessors recurse J (succID t) a ?l3))"
        by (rule buildFrame_trans)
      with s2 show ?thesis unfolding e by (simp add: stateOf_def)
    qed
  qed
qed

lemma buildSuccessors_buildFrame:
  assumes rec: "\<forall>a l. buildFrame l (stateOf (recurse a l))"
  shows "buildFrame l (stateOf (buildSuccessors recurse jobCache J ts l))"
proof (induction ts arbitrary: l)
  case Nil
  then show ?case by (simp add: stateOf_def buildFrame_refl)
next
  case (Cons t ts)
  show ?case
  proof (cases "buildSuccessor recurse jobCache J t l")
    case (Ok u l1)
    with buildSuccessor_buildFrame[OF rec, of l jobCache J t] have "buildFrame l l1"
      by (simp add: stateOf_def)
    from this Cons.IH[of l1] have "buildFrame l (stateOf (buildSuccessors recurse jobCache J ts l1))"
      by (rule buildFrame_trans)
    with Ok show ?thesis by simp
  next
    case (Err e l1)
    with buildSuccessor_buildFrame[OF rec, of l jobCache J t] show ?thesis by (simp add: stateOf_def)
  qed
qed

lemma buildToilState_buildFrame:
  "buildFrame l (stateOf (buildToilState depth jobCache J l))"
proof (induction depth arbitrary: J l)
  case 0
  then show ?case by (simp add: stateOf_def buildFrame_refl)
next
  case (Suc depth)
  have rec: "\<forall>a l. buildFrame l (stateOf (buildToilState depth jobCache a l))"
    using Suc.IH by blast
  show ?case
  proof (cases "readyToProcess (objs l J)")
    case True
    then show ?thesis by (simp add: Let_def stateOf_def buildFrame_def)
  next
    case False
    let ?l1 = "l\<lparr>toilState := (toilState l)\<lparr>successorCounts := (successorCounts (toilState l))
               (jobStoreID (objs l J) \<mapsto> int (length (last (stack (objs l J)))))\<rparr>\<rparr>"
    have c: "\<And>l'. buildFrame ?l1 l' = buildFrame l l'" by (rule buildFrame_cong) simp_all
    from buildSuccessors_buildFrame[OF rec, of ?l1 jobCache J "last (stack (objs l J))"]
    have "buildFrame l (stateOf (buildSuccessors (buildToilState depth jobCache) jobCache J
             (last (stack (objs l J))) ?l1))"
      unfolding c .
    with False show ?thesis by (simp add: Let_def)
  qed
qed

lemma joinInv_apart:
  assumes inv: "joinInv C r l"
    and al: "\<And>b. known C r l b \<Longrightarrow> b < nextAddr l"
    and sv: "serviceJobStoreIDToPredecessorJob (toilState l) = Map.empty"
    and bs: "jobWrappersWithServicesBeingStarted (serviceManager l) = {}"
  shows "joinsApart {} l"
proof -
  have p1: "\<And>sid a. jobsToBeScheduledWithMultiplePredecessors (toilState l) sid = Some a \<Longrightarrow>
      a < nextAddr l \<and> \<not> inUse l a"
  proof -
    fix sid a assume j: "jobsToBeScheduledWithMultiplePredecessors (toilState l) sid = Some a"
    from joinInvD1[OF inv j] have k: "known C r l a"
      and nu: "\<forall>rs. (a, rs) \<notin> updatedJobs (toilState l)" by blast+
    from j have ra: "a \<in> ran (jobsToBeScheduledWithMultiplePredecessors (toilState l))" by (rule ranI)
    have "\<not> inUse l a"
    proof
      assume "inUse l a"
      with nu sv bs obtain s ps where
        q: "successorJobStoreIDToPredecessorJobs (toilState l) s = Some ps" and m: "a \<in> set ps"
        by (auto simp: inUse_def)
      from joinInvD4[OF inv q m] ra show False by simp
    qed
    with al[OF k] show "a < nextAddr l \<and> \<not> inUse l a" by simp
  qed
  have p2: "\<And>a. inUse l a \<Longrightarrow> a < nextAddr l"
  proof -
    fix a assume "inUse l a"
    with sv bs have "(\<exists>rs. (a, rs) \<in> updatedJobs (toilState l))
       \<or> (\<exists>s ps. successorJobStoreIDToPredecessorJobs (toilState l) s = Some ps \<and> a \<in> set ps)"
      by (auto simp: inUse_def)
    with joinInvD3[OF inv] joinInvD4[OF inv] have "known C r l a" by blast
    then show "a < nextAddr l" by (rule al)
  qed
  from p1 p2 show ?thesis unfolding joinsApart_def by simp
qed

lemma Leader_init_apart:
  assumes cd: "cacheDistinct jobCache rootJob"
    and root: "rootJob < heapNext"
    and cache: "\<forall>cache a. jobCache = Some cache \<longrightarrow> a \<in> ran cache \<longrightarrow> a < heapNext"
    and ok: "Leader_init depth cfg bs provisioner js heap heapNext rootJob jobCache = Ok () l'"
  shows "joinsApart {} l'"
proof -
  let ?l = "Leader_fields cfg bs provisioner js heap heapNext"
  from ok have t: "ToilState_init depth rootJob jobCache ?l = Ok () l'"
    by (auto simp: Leader_init_def split: res.splits if_splits)
  have r: "jobCache = None \<longrightarrow> rootJob < nextAddr ?l" using root by (simp add: Leader_fields_def)
  from ToilState_init_joinInv[OF cd r t] have inv: "joinInv jobCache rootJob l'" .
  from buildToilState_buildFrame[of "?l\<lparr>toilState := ToilState_fields\<rparr>" depth jobCache rootJob] t
  have "buildFrame (?l\<lparr>toilState := ToilState_fields\<rparr>) l'"
    by (simp add: ToilState_init_def stateOf_def)
  then have n: "heapNext \<le> nextAddr l'"
    and sv: "serviceJobStoreIDToPredecessorJob (toilState l') = Map.empty"
    and bs: "jobWrappersWithServicesBeingStarted (serviceManager l') = {}"
    by (simp_all add: buildFrame_def Leader_fields_def ToilState_fields_def ServiceManager_fields_def)
  have al: "\<And>b. known jobCache rootJob l' b \<Longrightarrow> b < nextAddr l'"
  proof (cases jobCache)
    case None
    fix b assume "known jobCache rootJob l' b"
    with None show "b < nextAddr l'" by (simp add: known_def)
  next
    case (Some c)
    fix b assume "known jobCache rootJob l' b"
    with Some have "b = rootJob \<or> b \<in> ran c" by (auto simp: known_def ran_def)
    with root cache Some n show "b < nextAddr l'" by (auto simp: less_le_trans)
  qed
  from inv al sv bs show ?thesis by (rule joinInv_apart)
qed

lemma scenarioOrder_updated: "\<forall>S. set (order_updated scenarioOrder S) \<subseteq> S"
proof
  fix S :: "(addr \<times> int) set"
  show "set (order_updated scenarioOrder S) \<subseteq> S"
    by (cases "finite S") (simp_all add: scenarioOrder_def)
qed





end
